theory Spec2Isabelle
  imports Complex_Main "HOL-Library.AList"
begin

unbundle bit_operations_syntax

section \<open>Common data model\<close>

text \<open>
  The development embeds \<^verbatim>\<open>lyft_trajectories/model/tl_light_predictor_intersection.py\<close>.
  Python integers are \<open>int\<close> where they can be negative (row positions used with
  \<^verbatim>\<open>iloc\<close>, the column \<^verbatim>\<open>valid_hist_len\<close>) and \<open>nat\<close> where they are lengths, counts
  or vocabulary indices. Exceptions are values of \<open>py_error\<close>; a function that can raise
  returns \<open>py_error + 'a\<close>.
\<close>

datatype py_error = IndexError | KeyError | ValueError | ZeroDivisionError

type_synonym token = string

text \<open>
  One row of the event table \<^verbatim>\<open>tl_events_df\<close>. Timestamps are nanoseconds. A frame's
  \<^verbatim>\<open>rnn_inputs_raw\<close> is a list of (token, one-hot token type) pairs; the two label
  dictionaries are keyed by signal id and hold only the signals with a known value.
\<close>

record event_row =
  timestamp :: int
  master_intersection_idx :: nat
  rnn_inputs_raw :: "(token \<times> real list) list"
  tl_signal_classes :: "(nat \<times> real) list"
  time_to_tl_change :: "(nat \<times> real) list"
  continuous_time :: bool
  valid_hist_len :: int

definition HIST_LEN_FRAMES :: int where
  "HIST_LEN_FRAMES = 100"

text \<open>
  \<^verbatim>\<open>series.iloc[i]\<close>: a negative position counts from the end, a position outside the
  series raises \<^verbatim>\<open>IndexError\<close>.
\<close>

definition iloc :: "'a list \<Rightarrow> int \<Rightarrow> py_error + 'a" where
  "iloc series pos =
     (if 0 \<le> pos \<and> pos < int (length series) then Inr (series ! nat pos)
      else if pos < 0 \<and> 0 \<le> int (length series) + pos
      then Inr (series ! nat (int (length series) + pos))
      else Inl IndexError)"

section \<open>Continuity flag and valid history length\<close>

text \<open>
  Lines 79-85: \<^verbatim>\<open>timestamp.diff(1) < timedelta(seconds=0.31)\<close> and
  \<^verbatim>\<open>master_intersection_idx.shift(1) == master_intersection_idx\<close>. For the first row the
  difference is \<^verbatim>\<open>NaT\<close> and the shifted value is \<^verbatim>\<open>NaN\<close>, both comparisons are false.
\<close>

fun continuous_time_from :: "event_row \<Rightarrow> event_row list \<Rightarrow> bool list" where
  "continuous_time_from prev [] = []"
| "continuous_time_from prev (r # rs) =
     (timestamp r - timestamp prev < 310000000
        \<and> master_intersection_idx prev = master_intersection_idx r)
     # continuous_time_from r rs"

definition continuous_time_column :: "event_row list \<Rightarrow> bool list" where
  "continuous_time_column df =
     (case df of [] \<Rightarrow> [] | r # rs \<Rightarrow> False # continuous_time_from r rs)"

definition add_continuous_time :: "event_row list \<Rightarrow> event_row list" where
  "add_continuous_time df =
     map2 (\<lambda>r c. r\<lparr>continuous_time := c\<rparr>) df (continuous_time_column df)"

text \<open>
  The \<^verbatim>\<open>while\<close> loop of \<^verbatim>\<open>compute_last_valid_idx_for_seq\<close> (lines 99-103) for one
  \<^verbatim>\<open>row_i\<close>. Python's \<^verbatim>\<open>and\<close> does not read the flag once the length bound fails.
\<close>

function last_valid_idx_loop :: "bool list \<Rightarrow> int \<Rightarrow> int \<Rightarrow> py_error + int" where
  "last_valid_idx_loop cont row_i last_valid_idx =
     (if row_i - last_valid_idx + 1 < HIST_LEN_FRAMES then
        (case iloc cont last_valid_idx of
           Inl e \<Rightarrow> Inl e
         | Inr c \<Rightarrow>
             if c then last_valid_idx_loop cont row_i (last_valid_idx - 1)
             else Inr last_valid_idx)
      else Inr last_valid_idx)"
  by pat_completeness auto
termination
  by (relation "measure (\<lambda>(cont, row_i, l). nat (HIST_LEN_FRAMES - (row_i - l + 1)))") auto

declare last_valid_idx_loop.simps [simp del]

definition valid_hist_len_of_row :: "bool list \<Rightarrow> nat \<Rightarrow> py_error + int" where
  "valid_hist_len_of_row cont row_i =
     (case last_valid_idx_loop cont (int row_i) (int row_i) of
        Inl e \<Rightarrow> Inl e
      | Inr last_valid_idx \<Rightarrow> Inr (int row_i - last_valid_idx))"

text \<open>The \<^verbatim>\<open>for row_i in range(len(tl_events_df))\<close> loop; the first exception ends it.\<close>

fun valid_hist_len_rows :: "bool list \<Rightarrow> nat list \<Rightarrow> py_error + int list" where
  "valid_hist_len_rows cont [] = Inr []"
| "valid_hist_len_rows cont (row_i # rows) =
     (case valid_hist_len_of_row cont row_i of
        Inl e \<Rightarrow> Inl e
      | Inr v \<Rightarrow>
          (case valid_hist_len_rows cont rows of
             Inl e \<Rightarrow> Inl e
           | Inr vs \<Rightarrow> Inr (v # vs)))"

definition compute_last_valid_idx_for_seq :: "event_row list \<Rightarrow> py_error + event_row list" where
  "compute_last_valid_idx_for_seq tl_events_df =
     (case valid_hist_len_rows (map continuous_time tl_events_df) [0..<length tl_events_df] of
        Inl e \<Rightarrow> Inl e
      | Inr vs \<Rightarrow> Inr (map2 (\<lambda>r v. r\<lparr>valid_hist_len := v\<rparr>) tl_events_df vs))"

text \<open>
  The reference quantity: walking backward from row \<open>i\<close>, the number of rows whose
  continuity flag holds before the first row whose flag does not. A true flag on row \<open>j\<close>
  says that row \<open>j - 1\<close> continues into row \<open>j\<close>, so this is the number of immediately
  preceding rows that are connected to row \<open>i\<close> without a break.
\<close>

fun continuous_run :: "bool list \<Rightarrow> nat \<Rightarrow> nat" where
  "continuous_run cont 0 = (if cont ! 0 then 1 else 0)"
| "continuous_run cont (Suc i) = (if cont ! Suc i then Suc (continuous_run cont i) else 0)"

section \<open>Valid-window selection\<close>

text \<open>
  \<^verbatim>\<open>get_valid_indices\<close> (lines 422-470). Each row is encoded as an integer whose bit 0
  says "the frame has at least one token" and whose bit 1 says "the continuity flag holds".
\<close>

definition is_non_empty_bit :: nat where
  "is_non_empty_bit = 0"

definition is_time_continuous_bit :: nat where
  "is_time_continuous_bit = 1"

definition encode_len_continuity :: "nat \<Rightarrow> bool \<Rightarrow> int" where
  "encode_len_continuity records_len is_continuous =
     (if records_len \<ge> 1 then push_bit is_non_empty_bit 1 else 0)
       + (if is_continuous then push_bit is_time_continuous_bit 1 else 0)"

definition decode_len_continuity :: "int \<Rightarrow> bool \<times> bool" where
  "decode_len_continuity num =
     ((num AND push_bit is_non_empty_bit 1) \<noteq> 0,
      (num AND push_bit is_time_continuous_bit 1) \<noteq> 0)"

text \<open>
  \<^verbatim>\<open>is_nonempty_input_present\<close>: \<^verbatim>\<open>for i in range(len(hist) - 1, -1, -1)\<close> visits the
  window from its last row to its first, so the loop is a recursion over the reversed
  window. The continuity test comes before the non-emptiness test.
\<close>

fun scan_from_end :: "int list \<Rightarrow> int" where
  "scan_from_end [] = 0"
| "scan_from_end (num # older) =
     (case decode_len_continuity num of
        (is_non_empty, is_time_continuous) \<Rightarrow>
          if \<not> is_time_continuous then 0
          else if is_non_empty then 1
          else scan_from_end older)"

definition is_nonempty_input_present :: "int list \<Rightarrow> int" where
  "is_nonempty_input_present hist = scan_from_end (rev hist)"

text \<open>
  \<^verbatim>\<open>series.rolling(window, min_periods=1).agg(f)\<close>: row \<open>i\<close> gets \<open>f\<close> of the rows
  \<open>i - window + 1 .. i\<close>, cut at the start of the series.
\<close>

definition rolling_agg :: "nat \<Rightarrow> ('a list \<Rightarrow> 'b) \<Rightarrow> 'a list \<Rightarrow> 'b list" where
  "rolling_agg window f series =
     map (\<lambda>i. f (drop (Suc i - window) (take (Suc i) series))) [0..<length series]"

text \<open>
  The parameter \<^verbatim>\<open>history_len_records\<close> is written \<open>hist_len\<close>. With \<open>hist_len = 0\<close>
  the window size is negative and \<^verbatim>\<open>rolling\<close> raises \<^verbatim>\<open>ValueError\<close>. The result is
  \<^verbatim>\<open>np.arange(len(tl_events_df))[valid_rows_bool]\<close>.
\<close>

definition get_valid_indices :: "event_row list \<Rightarrow> nat \<Rightarrow> bool \<Rightarrow> py_error + nat list" where
  "get_valid_indices tl_events_df hist_len is_inference =
     (if hist_len = 0 then Inl ValueError
      else
        let is_nonempty_is_continuous_series =
              map (\<lambda>r. encode_len_continuity (length (rnn_inputs_raw r)) (continuous_time r))
                tl_events_df;
            is_nonempty_input_present_series =
              rolling_agg (hist_len - 1) is_nonempty_input_present
                is_nonempty_is_continuous_series;
            valid_rows_bool =
              map2 (\<lambda>r present. (length (tl_signal_classes r) > 0 \<or> is_inference) \<and> present = 1)
                tl_events_df is_nonempty_input_present_series
        in Inr (map fst (filter snd (zip [0..<length tl_events_df] valid_rows_bool))))"

section \<open>Vocabulary\<close>

text \<open>
  A Python dictionary is an association list with distinct keys in insertion order;
  \<open>AList.update\<close> overwrites an existing key in place and appends a new one, and
  \<^verbatim>\<open>len(d)\<close> is the length of the list. Lines 121-127 build \<^verbatim>\<open>train_vocab\<close> and
  \<^verbatim>\<open>term_freq\<close> together; \<^verbatim>\<open>term_freq[token] += 1\<close> raises \<^verbatim>\<open>KeyError\<close> on a missing key.
\<close>

type_synonym vocab = "(token \<times> nat) list"

fun vocab_add_token :: "vocab \<times> vocab \<Rightarrow> token \<Rightarrow> py_error + vocab \<times> vocab" where
  "vocab_add_token (train_vocab, term_freq) tok =
     (if map_of train_vocab tok = None then
        Inr (AList.update tok (length train_vocab) train_vocab, AList.update tok 1 term_freq)
      else
        (case map_of term_freq tok of
           None \<Rightarrow> Inl KeyError
         | Some c \<Rightarrow> Inr (train_vocab, AList.update tok (c + 1) term_freq)))"

fun vocab_add_frame :: "vocab \<times> vocab \<Rightarrow> (token \<times> real list) list \<Rightarrow> py_error + vocab \<times> vocab" where
  "vocab_add_frame st [] = Inr st"
| "vocab_add_frame st ((tok, ohe) # rnn_input_raw) =
     (case vocab_add_token st tok of
        Inl e \<Rightarrow> Inl e
      | Inr st' \<Rightarrow> vocab_add_frame st' rnn_input_raw)"

fun vocab_add_frames :: "vocab \<times> vocab \<Rightarrow> (token \<times> real list) list list \<Rightarrow> py_error + vocab \<times> vocab" where
  "vocab_add_frames st [] = Inr st"
| "vocab_add_frames st (rnn_input_raw # rest) =
     (case vocab_add_frame st rnn_input_raw of
        Inl e \<Rightarrow> Inl e
      | Inr st' \<Rightarrow> vocab_add_frames st' rest)"

definition build_train_vocab :: "event_row list \<Rightarrow> nat \<Rightarrow> py_error + vocab \<times> vocab" where
  "build_train_vocab tl_events_df_trn intersection_idx =
     vocab_add_frames ([], [])
       (map rnn_inputs_raw
          (filter (\<lambda>r. master_intersection_idx r = intersection_idx) tl_events_df_trn))"

text \<open>\<^verbatim>\<open>nn.Embedding(vocab_size + 2, embedding_dim)\<close> (line 170): the number of rows.\<close>

definition embedding_rows :: "nat \<Rightarrow> nat" where
  "embedding_rows vocab_size = vocab_size + 2"

section \<open>Tokenized history builder\<close>

text \<open>
  \<^verbatim>\<open>IntersectionDataset\<close> (lines 302-325). Constructor parameters that share a name with
  a field are written with a shorter name.
\<close>

record intersection_dataset =
  tl_events_df :: "event_row list"
  history_events_max :: int
  history_len_records :: int
  valid_indices :: "nat list"
  vocab_term_2_idx :: vocab
  vocab_term_2_freq :: vocab
  min_freq :: nat
  UNKNOWN_TOKEN_IDX :: nat
  PAD_TOKEN_IDX :: nat
  tl_signal_indices :: "nat list"

text \<open>
  \<^verbatim>\<open>tl_events_df["rnn_inputs_raw"].map(len).max()\<close>. On an empty frame pandas gives
  \<^verbatim>\<open>NaN\<close>; no sample can be requested from an empty frame, and the model gives 0 there.
\<close>

definition max_events_per_timestamp :: "event_row list \<Rightarrow> nat" where
  "max_events_per_timestamp df = foldr max (map (\<lambda>r. length (rnn_inputs_raw r)) df) 0"

definition IntersectionDataset ::
  "event_row list \<Rightarrow> nat list \<Rightarrow> vocab \<Rightarrow> vocab \<Rightarrow> nat list \<Rightarrow> int \<Rightarrow> nat \<Rightarrow> intersection_dataset"
where
  "IntersectionDataset df valid_idx train_vocab term_freq signals hist_len minf =
     \<lparr> tl_events_df = df,
       history_events_max = hist_len * int (max_events_per_timestamp df),
       history_len_records = hist_len,
       valid_indices = valid_idx,
       vocab_term_2_idx = train_vocab,
       vocab_term_2_freq = term_freq,
       min_freq = minf,
       UNKNOWN_TOKEN_IDX = length train_vocab,
       PAD_TOKEN_IDX = length train_vocab + 1,
       tl_signal_indices = signals \<rparr>"

text \<open>
  Lines 345-350. Python evaluates the condition first: \<^verbatim>\<open>token in vocab_term_2_idx\<close>, then
  \<^verbatim>\<open>vocab_term_2_freq[token] >= min_freq\<close>, which raises \<^verbatim>\<open>KeyError\<close> when the token has
  an index but no recorded frequency.
\<close>

definition token_idx_of :: "intersection_dataset \<Rightarrow> token \<Rightarrow> py_error + nat" where
  "token_idx_of ds tok =
     (case map_of (vocab_term_2_idx ds) tok of
        None \<Rightarrow> Inr (UNKNOWN_TOKEN_IDX ds)
      | Some idx \<Rightarrow>
          (case map_of (vocab_term_2_freq ds) tok of
             None \<Rightarrow> Inl KeyError
           | Some freq \<Rightarrow>
               if freq \<ge> min_freq ds then Inr idx else Inr (UNKNOWN_TOKEN_IDX ds)))"

text \<open>
  The inner loop \<^verbatim>\<open>for token, token_type_ohe in timestep_events\<close> (lines 342-352). The
  accumulator holds \<^verbatim>\<open>tokens_list\<close>, \<^verbatim>\<open>token_type_ohe_list\<close> and \<^verbatim>\<open>token_timesteps_list\<close>.
  The weight \<^verbatim>\<open>timestap / self.history_len_records\<close> is computed before the lookup;
  Python's float division is modelled as division of reals.
\<close>

fun timestep_events_loop ::
  "intersection_dataset \<Rightarrow> int \<Rightarrow> (token \<times> real list) list
     \<Rightarrow> nat list \<times> real list list \<times> real list
     \<Rightarrow> py_error + nat list \<times> real list list \<times> real list"
where
  "timestep_events_loop ds timestap [] acc = Inr acc"
| "timestep_events_loop ds timestap ((tok, token_type_ohe) # evs) (toks, ohes, steps) =
     (if history_len_records ds = 0 then Inl ZeroDivisionError
      else
        (case token_idx_of ds tok of
           Inl e \<Rightarrow> Inl e
         | Inr token_idx \<Rightarrow>
             timestep_events_loop ds timestap evs
               (toks @ [token_idx], ohes @ [token_type_ohe],
                steps @ [real_of_int timestap / real_of_int (history_len_records ds)])))"

text \<open>The outer loop \<^verbatim>\<open>for timestep_events in raw_inputs_hist\<close> with \<^verbatim>\<open>timestap -= 1\<close>.\<close>

fun raw_inputs_hist_loop ::
  "intersection_dataset \<Rightarrow> int \<Rightarrow> (token \<times> real list) list list
     \<Rightarrow> nat list \<times> real list list \<times> real list
     \<Rightarrow> py_error + nat list \<times> real list list \<times> real list"
where
  "raw_inputs_hist_loop ds timestap [] acc = Inr acc"
| "raw_inputs_hist_loop ds timestap (timestep_events # later) acc =
     (case timestep_events_loop ds timestap timestep_events acc of
        Inl e \<Rightarrow> Inl e
      | Inr acc' \<Rightarrow> raw_inputs_hist_loop ds (timestap - 1) later acc')"

text \<open>
  \<^verbatim>\<open>series.iloc[start:stop]\<close>: a negative bound counts from the end, and both bounds are
  then cut to the range of the series.
\<close>

definition slice_bound :: "int \<Rightarrow> int \<Rightarrow> nat" where
  "slice_bound n i = nat (if i < 0 then max (i + n) 0 else min i n)"

definition iloc_slice :: "'a list \<Rightarrow> int \<Rightarrow> int \<Rightarrow> 'a list" where
  "iloc_slice xs start stop =
     drop (slice_bound (int (length xs)) start) (take (slice_bound (int (length xs)) stop) xs)"

record sample =
  tokens_np :: "nat list"
  token_type_ohe_np :: "real list list"
  token_timesteps_np :: "real list"
  seq_len :: nat
  all_true_classes :: "(nat \<times> real) list"
  all_tte :: "(nat \<times> real) list"
  classes_availabilities :: "(nat \<times> real) list"
  tte_availabilities :: "(nat \<times> real) list"

text \<open>
  \<^verbatim>\<open>__getitem__\<close> (lines 330-419), without the two extra columns of
  \<^verbatim>\<open>return_indices\<close>. \<^verbatim>\<open>np.ones(padding_len)\<close> raises \<^verbatim>\<open>ValueError\<close> for a negative
  length. \<^verbatim>\<open>np.concatenate\<close> of the token types with \<^verbatim>\<open>np.zeros((padding_len, 4))\<close> raises
  \<^verbatim>\<open>ValueError\<close> when the list is empty (a one-dimensional array) or a type vector does
  not have 4 entries. The casts to \<^verbatim>\<open>float32\<close> are not modelled.
\<close>

definition getitem :: "intersection_dataset \<Rightarrow> nat \<Rightarrow> py_error + sample" where
  "getitem ds index =
     (if index \<ge> length (valid_indices ds) then Inl IndexError
      else
        let row_i = valid_indices ds ! index in
        (case iloc (tl_events_df ds) (int row_i) of
           Inl e \<Rightarrow> Inl e
         | Inr row \<Rightarrow>
             let hist = min (history_len_records ds) (valid_hist_len row);
                 raw_inputs_hist =
                   iloc_slice (map rnn_inputs_raw (tl_events_df ds))
                     (int row_i - hist) (int row_i + 1)
             in
             (case raw_inputs_hist_loop ds (hist + 1) raw_inputs_hist ([], [], []) of
                Inl e \<Rightarrow> Inl e
              | Inr (tokens_list, token_type_ohe_list, token_timesteps_list) \<Rightarrow>
                  let padding_len = history_events_max ds - int (length tokens_list) in
                  if padding_len < 0 then Inl ValueError
                  else if token_type_ohe_list = []
                          \<or> list_ex (\<lambda>v. length v \<noteq> 4) token_type_ohe_list
                  then Inl ValueError
                  else
                    let known_true_classes = tl_signal_classes row;
                        known_tte = time_to_tl_change row
                    in Inr
                      \<lparr> tokens_np =
                          tokens_list @ replicate (nat padding_len) (PAD_TOKEN_IDX ds),
                        token_type_ohe_np =
                          token_type_ohe_list @ replicate (nat padding_len) [0, 0, 0, 0],
                        token_timesteps_np =
                          token_timesteps_list @ replicate (nat padding_len) 0,
                        seq_len = length tokens_list,
                        all_true_classes =
                          map (\<lambda>tl_id. (tl_id,
                                 case map_of known_true_classes tl_id of
                                   Some c \<Rightarrow> c | None \<Rightarrow> 0))
                            (tl_signal_indices ds),
                        all_tte =
                          map (\<lambda>tl_id. (tl_id,
                                 case map_of known_tte tl_id of
                                   Some t \<Rightarrow> t | None \<Rightarrow> 99))
                            (tl_signal_indices ds),
                        classes_availabilities =
                          map (\<lambda>tl_id. (tl_id,
                                 case map_of known_true_classes tl_id of
                                   Some c \<Rightarrow> 1 | None \<Rightarrow> 0))
                            (tl_signal_indices ds),
                        tte_availabilities =
                          map (\<lambda>tl_id. (tl_id,
                                 case map_of known_tte tl_id of
                                   Some t \<Rightarrow> 1 | None \<Rightarrow> 0))
                            (tl_signal_indices ds) \<rparr>)))"

section \<open>Tensor entries\<close>

text \<open>
  An entry of a floating-point tensor is a real number or one of the three non-finite
  values. Rounding is not modelled: a finite entry is the real number it stands for.
\<close>

datatype float32 = Finite real | PosInf | NegInf | NaN

definition isnan :: "float32 \<Rightarrow> bool" where
  "isnan x = (x = NaN)"

definition isinf :: "float32 \<Rightarrow> bool" where
  "isinf x = (x = PosInf \<or> x = NegInf)"

text \<open>\<^verbatim>\<open>torch.clamp(x, lo, hi)\<close> is \<^verbatim>\<open>min(max(x, lo), hi)\<close> and keeps \<^verbatim>\<open>NaN\<close>.\<close>

definition torch_clamp :: "real \<Rightarrow> real \<Rightarrow> float32 \<Rightarrow> float32" where
  "torch_clamp lo hi x =
     (case x of
        Finite v \<Rightarrow> Finite (min (max v lo) hi)
      | PosInf \<Rightarrow> Finite hi
      | NegInf \<Rightarrow> Finite lo
      | NaN \<Rightarrow> NaN)"

text \<open>
  \<^verbatim>\<open>clip_and_replace_explosures\<close> (lines 198-203), on the entries of the gradient in any
  fixed order: the masked assignment of 0, then the clamp.
\<close>

definition clip_and_replace_explosures :: "float32 list \<Rightarrow> float32 list" where
  "clip_and_replace_explosures grad =
     (let grad = map (\<lambda>g. if isnan g \<or> isinf g then Finite 0 else g) grad
      in map (torch_clamp (- 0.25) 0.25) grad)"

section \<open>Weibull decoding\<close>

text \<open>
  \<^verbatim>\<open>get_weibull_quantiles\<close> (lines 220-224) and \<^verbatim>\<open>get_weibull_mode\<close> (lines 227-234), over
  the entries of the parameter tensors, with \<^verbatim>\<open>torch.pow\<close> as \<open>powr\<close>. In
  \<^verbatim>\<open>get_weibull_mode\<close> the power is computed for every entry and the entries with
  \<^verbatim>\<open>weibull_k <= 1.0\<close> are then overwritten with 0.
\<close>

definition get_weibull_quantiles :: "real list \<Rightarrow> real list \<Rightarrow> real \<Rightarrow> real list" where
  "get_weibull_quantiles weibull_lambda weibull_k quantile =
     map2 (\<lambda>l k. l * (- ln (1 - quantile)) powr (1 / k)) weibull_lambda weibull_k"

definition masked_fill :: "'a list \<Rightarrow> bool list \<Rightarrow> 'a \<Rightarrow> 'a list" where
  "masked_fill xs sel v = map2 (\<lambda>x m. if m then v else x) xs sel"

definition get_weibull_mode :: "real list \<Rightarrow> real list \<Rightarrow> real list" where
  "get_weibull_mode weibull_lambda weibull_k =
     (let mode = map2 (\<lambda>l k. l * ((k - 1) / k) powr (1 / k)) weibull_lambda weibull_k
      in masked_fill mode (map (\<lambda>k. k \<le> 1) weibull_k) 0)"

section \<open>Masked losses\<close>

text \<open>
  The part of one batch that belongs to one signal: the predicted colour probabilities
  \<^verbatim>\<open>torch.squeeze(pred_color_classes)\<close>, the labels, the values
  \<^verbatim>\<open>torch.squeeze(tte_distr.log_prob(true_ttes))\<close>, and the two availability tensors. The
  dictionaries of a batch are all keyed by the signals of the intersection, so a batch is
  the list of these parts.
\<close>

record signal_batch =
  pred_color :: "real list"
  true_color :: "real list"
  class_availability :: "real list"
  tte_log_prob :: "float32 list"
  tte_availability :: "real list"

text \<open>The product of a tensor entry with a finite number.\<close>

definition float_times :: "float32 \<Rightarrow> real \<Rightarrow> float32" where
  "float_times x a =
     (case x of
        Finite v \<Rightarrow> Finite (v * a)
      | PosInf \<Rightarrow> if a > 0 then PosInf else if a < 0 then NegInf else NaN
      | NegInf \<Rightarrow> if a > 0 then NegInf else if a < 0 then PosInf else NaN
      | NaN \<Rightarrow> NaN)"

text \<open>
  The assignment \<^verbatim>\<open>log_prob_all[isnan | isinf] = 0.0\<close>; afterwards every entry is finite
  and is read as a real number.
\<close>

definition zero_nonfinite :: "float32 \<Rightarrow> real" where
  "zero_nonfinite x = (case x of Finite v \<Rightarrow> v | _ \<Rightarrow> 0)"

text \<open>
  The loop over \<^verbatim>\<open>tl_2_color_class.items()\<close> (lines 561-570) with the accumulators
  \<^verbatim>\<open>loss_bce\<close> and \<^verbatim>\<open>loss_bce_terms_count\<close>; \<^verbatim>\<open>binary_crossentropy\<close> is the parameter of
  \<^verbatim>\<open>train\<close> and \<^verbatim>\<open>predict\<close>, applied entry by entry.
\<close>

fun bce_loop :: "(real \<Rightarrow> real \<Rightarrow> real) \<Rightarrow> signal_batch list \<Rightarrow> real \<times> real \<Rightarrow> real \<times> real" where
  "bce_loop binary_crossentropy [] acc = acc"
| "bce_loop binary_crossentropy (s # rest) (loss_bce, loss_bce_terms_count) =
     (let bce_loss_tl =
            map2 (*) (map2 binary_crossentropy (pred_color s) (true_color s))
              (class_availability s)
      in bce_loop binary_crossentropy rest
           (loss_bce + sum_list bce_loss_tl,
            loss_bce_terms_count + sum_list (class_availability s)))"

text \<open>The loop over \<^verbatim>\<open>tl_2_tte_distr.items()\<close> (lines 576-588).\<close>

fun tte_loop :: "signal_batch list \<Rightarrow> real \<times> real \<Rightarrow> real \<times> real" where
  "tte_loop [] acc = acc"
| "tte_loop (s # rest) (loss_tte_log_prob, loss_tte_log_prob_terms_count) =
     (let log_prob_all =
            map zero_nonfinite (map2 float_times (tte_log_prob s) (tte_availability s))
      in tte_loop rest
           (loss_tte_log_prob - sum_list log_prob_all,
            loss_tte_log_prob_terms_count + sum_list (tte_availability s)))"

record batch_losses =
  loss :: real
  bce_term :: real
  bce_terms_count :: real
  tte_term :: real
  tte_terms_count :: real

text \<open>
  The training step (lines 559-592) and the evaluation in \<^verbatim>\<open>predict\<close> (lines 800-832)
  guard each division with \<^verbatim>\<open>if count > 0\<close>; the validation step (lines 653-688) guards
  it with \<^verbatim>\<open>if count\<close> and halves the survival term.
\<close>

definition train_batch_losses :: "(real \<Rightarrow> real \<Rightarrow> real) \<Rightarrow> signal_batch list \<Rightarrow> batch_losses" where
  "train_batch_losses binary_crossentropy batch =
     (case bce_loop binary_crossentropy batch (0, 0) of
        (loss_bce, loss_bce_terms_count) \<Rightarrow>
     (case tte_loop batch (0, 0) of
        (loss_tte_log_prob, loss_tte_log_prob_terms_count) \<Rightarrow>
       let loss_bce =
             (if loss_bce_terms_count > 0 then loss_bce / loss_bce_terms_count else loss_bce);
           loss_tte_log_prob =
             (if loss_tte_log_prob_terms_count > 0
              then loss_tte_log_prob / loss_tte_log_prob_terms_count
              else loss_tte_log_prob)
       in \<lparr> loss = loss_bce + loss_tte_log_prob,
            bce_term = loss_bce,
            bce_terms_count = loss_bce_terms_count,
            tte_term = loss_tte_log_prob,
            tte_terms_count = loss_tte_log_prob_terms_count \<rparr>))"

definition val_batch_losses :: "(real \<Rightarrow> real \<Rightarrow> real) \<Rightarrow> signal_batch list \<Rightarrow> batch_losses" where
  "val_batch_losses binary_crossentropy batch =
     (case bce_loop binary_crossentropy batch (0, 0) of
        (loss_bce, loss_bce_terms_count) \<Rightarrow>
     (case tte_loop batch (0, 0) of
        (loss_tte_log_prob, loss_tte_log_prob_terms_count) \<Rightarrow>
       let loss_bce =
             (if loss_bce_terms_count \<noteq> 0 then loss_bce / loss_bce_terms_count else loss_bce);
           loss_tte_log_prob =
             (if loss_tte_log_prob_terms_count \<noteq> 0
              then loss_tte_log_prob / loss_tte_log_prob_terms_count
              else loss_tte_log_prob)
       in \<lparr> loss = loss_bce + loss_tte_log_prob / 2,
            bce_term = loss_bce,
            bce_terms_count = loss_bce_terms_count,
            tte_term = loss_tte_log_prob,
            tte_terms_count = loss_tte_log_prob_terms_count \<rparr>))"

definition predict_batch_losses :: "(real \<Rightarrow> real \<Rightarrow> real) \<Rightarrow> signal_batch list \<Rightarrow> batch_losses" where
  "predict_batch_losses binary_crossentropy batch =
     (case bce_loop binary_crossentropy batch (0, 0) of
        (loss_bce, loss_bce_terms_count) \<Rightarrow>
     (case tte_loop batch (0, 0) of
        (loss_tte_log_prob, loss_tte_log_prob_terms_count) \<Rightarrow>
       let loss_bce =
             (if loss_bce_terms_count > 0 then loss_bce / loss_bce_terms_count else loss_bce);
           loss_tte_log_prob =
             (if loss_tte_log_prob_terms_count > 0
              then loss_tte_log_prob / loss_tte_log_prob_terms_count
              else loss_tte_log_prob)
       in \<lparr> loss = loss_bce + loss_tte_log_prob,
            bce_term = loss_bce,
            bce_terms_count = loss_bce_terms_count,
            tte_term = loss_tte_log_prob,
            tte_terms_count = loss_tte_log_prob_terms_count \<rparr>))"

text \<open>
  The default \<^verbatim>\<open>nn.BCELoss(reduction="none")\<close> on one entry: both logarithms are cut
  below at -100.
\<close>

definition clamped_log :: "real \<Rightarrow> real" where
  "clamped_log p = (if p \<le> 0 then - 100 else max (ln p) (- 100))"

definition BCELoss :: "real \<Rightarrow> real \<Rightarrow> real" where
  "BCELoss p y = - (y * clamped_log p + (1 - y) * clamped_log (1 - p))"

section \<open>Example inputs\<close>

text \<open>
  Two batches of two samples for an intersection with two signals. In the first one every
  colour label is missing for one sample of each signal and the time-to-event entries
  include non-finite log-probabilities; in the second one nothing is available.
\<close>

definition example_batch :: "signal_batch list" where
  "example_batch =
     [\<lparr> pred_color = [0.5, 0.25], true_color = [1, 0], class_availability = [1, 0],
        tte_log_prob = [Finite (- 2), NegInf], tte_availability = [1, 0] \<rparr>,
      \<lparr> pred_color = [0.75, 0.5], true_color = [0, 1], class_availability = [0, 1],
        tte_log_prob = [NaN, Finite (- 3)], tte_availability = [0, 1] \<rparr>]"

definition example_batch_unlabelled :: "signal_batch list" where
  "example_batch_unlabelled =
     [\<lparr> pred_color = [0.5, 0.25], true_color = [0, 0], class_availability = [0, 0],
        tte_log_prob = [Finite (- 2), PosInf], tte_availability = [0, 0] \<rparr>,
      \<lparr> pred_color = [0.75, 0.5], true_color = [0, 0], class_availability = [0, 0],
        tte_log_prob = [NaN, Finite (- 3)], tte_availability = [0, 0] \<rparr>]"

text \<open>
  The three-row table of one intersection with one signal (id 7): timestamps 0.1 s apart,
  one token per row, a label on the third row only. The two derived columns are not yet
  computed.
\<close>

definition synthetic_rows :: "event_row list" where
  "synthetic_rows =
     [\<lparr> timestamp = 0, master_intersection_idx = 0,
        rnn_inputs_raw = [(''car_in'', [1, 0, 0, 0])],
        tl_signal_classes = [], time_to_tl_change = [],
        continuous_time = False, valid_hist_len = - 1 \<rparr>,
      \<lparr> timestamp = 100000000, master_intersection_idx = 0,
        rnn_inputs_raw = [(''car_stop'', [0, 1, 0, 0])],
        tl_signal_classes = [], time_to_tl_change = [],
        continuous_time = False, valid_hist_len = - 1 \<rparr>,
      \<lparr> timestamp = 200000000, master_intersection_idx = 0,
        rnn_inputs_raw = [(''car_in'', [1, 0, 0, 0])],
        tl_signal_classes = [(7, 1)], time_to_tl_change = [(7, 2.5)],
        continuous_time = False, valid_hist_len = - 1 \<rparr>]"

definition synthetic_table :: "event_row list" where
  "synthetic_table = add_continuous_time synthetic_rows"

text \<open>
  The invariant of the vocabulary loop: both dictionaries have the same keys in the same
  order, no key twice, and the indices are \<open>0, 1, 2, ...\<close> in insertion order.
\<close>

definition vocab_inv :: "vocab \<times> vocab \<Rightarrow> bool" where
  "vocab_inv st = (case st of (v, f) \<Rightarrow>
      map fst v = map fst f \<and> distinct (map fst v) \<and> map snd v = [0..<length v])"

text \<open>
  The table after \<^verbatim>\<open>compute_last_valid_idx_for_seq\<close>, the vocabulary of its intersection
  0 and the dataset of its valid rows, with \<open>min_freq = 2\<close>.
\<close>

definition synthetic_prepared :: "event_row list" where
  "synthetic_prepared = map2 (\<lambda>r v. r\<lparr>valid_hist_len := v\<rparr>) synthetic_table [0, 1, 2]"

definition synthetic_vocab :: vocab where
  "synthetic_vocab = [(''car_in'', 0), (''car_stop'', 1)]"

definition synthetic_freq :: vocab where
  "synthetic_freq = [(''car_in'', 2), (''car_stop'', 1)]"

definition synthetic_dataset :: intersection_dataset where
  "synthetic_dataset =
     IntersectionDataset synthetic_prepared [2] synthetic_vocab synthetic_freq [7]
       HIST_LEN_FRAMES 2"

text \<open>
  A table of one row: a first row (continuity flag false) with one token and a label.
\<close>

definition single_row_table :: "event_row list" where
  "single_row_table =
     add_continuous_time
       [\<lparr> timestamp = 0, master_intersection_idx = 0,
          rnn_inputs_raw = [(''car_in'', [1, 0, 0, 0])],
          tl_signal_classes = [(7, 1)], time_to_tl_change = [(7, 2.5)],
          continuous_time = False, valid_hist_len = 0 \<rparr>]"

text \<open>
  A second three-row table of one intersection, with four different tokens and two events
  in the middle frame, so that the order of the emitted tokens and the weight next to each
  of them can be read off; its derived columns, its vocabulary and its dataset with
  \<open>min_freq = 1\<close>.
\<close>

definition ordering_rows :: "event_row list" where
  "ordering_rows =
     [\<lparr> timestamp = 0, master_intersection_idx = 0,
        rnn_inputs_raw = [(''ped_wait'', [0, 0, 1, 0])],
        tl_signal_classes = [], time_to_tl_change = [],
        continuous_time = False, valid_hist_len = - 1 \<rparr>,
      \<lparr> timestamp = 100000000, master_intersection_idx = 0,
        rnn_inputs_raw = [(''car_in'', [1, 0, 0, 0]), (''car_stop'', [0, 1, 0, 0])],
        tl_signal_classes = [], time_to_tl_change = [],
        continuous_time = False, valid_hist_len = - 1 \<rparr>,
      \<lparr> timestamp = 200000000, master_intersection_idx = 0,
        rnn_inputs_raw = [(''car_out'', [0, 0, 0, 1])],
        tl_signal_classes = [(7, 0)], time_to_tl_change = [(7, 4)],
        continuous_time = False, valid_hist_len = - 1 \<rparr>]"

definition ordering_table :: "event_row list" where
  "ordering_table = add_continuous_time ordering_rows"

definition ordering_prepared :: "event_row list" where
  "ordering_prepared = map2 (\<lambda>r v. r\<lparr>valid_hist_len := v\<rparr>) ordering_table [0, 1, 2]"

definition ordering_vocab :: vocab where
  "ordering_vocab = [(''ped_wait'', 0), (''car_in'', 1), (''car_stop'', 2), (''car_out'', 3)]"

definition ordering_freq :: vocab where
  "ordering_freq = [(''ped_wait'', 1), (''car_in'', 1), (''car_stop'', 1), (''car_out'', 1)]"

definition ordering_dataset :: intersection_dataset where
  "ordering_dataset =
     IntersectionDataset ordering_prepared [2] ordering_vocab ordering_freq [7]
       HIST_LEN_FRAMES 1"

section \<open>Properties of the gradient sanitizer\<close>

text \<open>
  Claim C5. The gradient sanitizer first replaces every NaN or infinite entry with zero
  and then clamps every entry to the interval from -0.25 to 0.25: a finite entry \<open>v\<close>
  becomes \<open>min (max v (-0.25)) 0.25\<close>, every other entry becomes 0, so every entry of the
  result is a finite number of that interval. The gradient with the entries NaN,
  +Infinity and 1.5 is mapped to 0, 0 and 0.25.
\<close>

theorem clip_and_replace_explosures_sanitizes:
  "clip_and_replace_explosures grad
     = map (\<lambda>g. case g of Finite v \<Rightarrow> Finite (min (max v (- 0.25)) 0.25) | _ \<Rightarrow> Finite 0) grad
   \<and> (\<forall>g \<in> set (clip_and_replace_explosures grad). \<exists>v. g = Finite v \<and> - 0.25 \<le> v \<and> v \<le> 0.25)
   \<and> clip_and_replace_explosures [NaN, PosInf, Finite 1.5] = [Finite 0, Finite 0, Finite 0.25]"
proof -
  have eq: "clip_and_replace_explosures grad
     = map (\<lambda>g. case g of Finite v \<Rightarrow> Finite (min (max v (- 0.25)) 0.25) | _ \<Rightarrow> Finite 0) grad"
    for grad
    by (auto simp: clip_and_replace_explosures_def isnan_def isinf_def torch_clamp_def
          split: float32.splits)
  have "\<exists>v. g = Finite v \<and> - 0.25 \<le> v \<and> v \<le> 0.25"
    if "g \<in> set (clip_and_replace_explosures grad)" for g
    using that unfolding eq by (auto split: float32.splits)
  moreover have
    "clip_and_replace_explosures [NaN, PosInf, Finite 1.5] = [Finite 0, Finite 0, Finite 0.25]"
    unfolding eq by simp
  ultimately show ?thesis using eq by blast
qed

theorem clip_and_replace_explosures_sanitizes_witness:
  "clip_and_replace_explosures [NaN, NegInf, Finite (- 2), Finite 0.125]
     = [Finite 0, Finite 0, Finite (- 0.25), Finite 0.125]"
  using clip_and_replace_explosures_sanitizes [of "[NaN, NegInf, Finite (- 2), Finite 0.125]"]
  by simp

section \<open>Properties of the Weibull decoding\<close>

text \<open>
  Claim C6. For every entry with shape \<open>k\<close> and scale \<open>l\<close>, the decoded Weibull mode is
  \<open>l * ((k - 1) / k) powr (1 / k)\<close> when \<open>k > 1\<close> and 0 when \<open>k \<le> 1\<close>. For \<open>k = 1\<close> the
  mode is 0, and for \<open>k = 2\<close>, \<open>l = 3\<close> it is \<open>3 * 0.5 powr 0.5\<close>. The statement holds for
  all real \<open>k\<close> and \<open>l\<close>, in particular for the positive ones of the claim.
\<close>

theorem get_weibull_mode_formula:
  "get_weibull_mode weibull_lambda weibull_k
     = map2 (\<lambda>l k. if 1 < k then l * ((k - 1) / k) powr (1 / k) else 0) weibull_lambda weibull_k
   \<and> get_weibull_mode [l] [1] = [0]
   \<and> get_weibull_mode [3] [2] = [3 * (0.5 :: real) powr 0.5]"
proof -
  have eq: "get_weibull_mode ls ks
     = map2 (\<lambda>l k. if 1 < k then l * ((k - 1) / k) powr (1 / k) else 0) ls ks" for ls ks
    unfolding get_weibull_mode_def masked_fill_def Let_def
  proof (induction ls arbitrary: ks)
    case Nil
    show ?case by simp
  next
    case (Cons a ls)
    then show ?case by (cases ks) auto
  qed
  show ?thesis unfolding eq by simp
qed

theorem get_weibull_mode_formula_witness:
  "get_weibull_mode [3, 7, 5] [2, 1, 0.5] = [3 * (0.5 :: real) powr 0.5, 0, 0]"
  using get_weibull_mode_formula [of "[3, 7, 5]" "[2, 1, 0.5]" 0] by simp

text \<open>
  Claim C7. For every entry with shape \<open>k\<close> and scale \<open>l\<close>, the decoded quantile at
  probability \<open>p\<close> is \<open>l * (- ln (1 - p)) powr (1 / k)\<close>; for \<open>k = 1\<close>, \<open>l = 10\<close>,
  \<open>p = 0.5\<close> it is \<open>10 * (- ln 0.5)\<close>. For positive \<open>k\<close> and \<open>l\<close> and \<open>p\<close> strictly
  between 0 and 1 the value \<open>q\<close> is positive and is the point where the Weibull
  distribution function \<open>1 - exp (- (q / l) powr k)\<close> reaches \<open>p\<close>.
\<close>

theorem get_weibull_quantiles_formula:
  "get_weibull_quantiles weibull_lambda weibull_k p
     = map2 (\<lambda>l k. l * (- ln (1 - p)) powr (1 / k)) weibull_lambda weibull_k
   \<and> get_weibull_quantiles [10] [1] 0.5 = [10 * (- ln 0.5)]
   \<and> (\<forall>l k. 0 < k \<and> 0 < l \<and> 0 < p \<and> p < 1 \<longrightarrow>
        (\<exists>q. get_weibull_quantiles [l] [k] p = [q] \<and> 0 < q
           \<and> 1 - exp (- ((q / l) powr k)) = p))"
proof -
  have a: "get_weibull_quantiles [10] [1] 0.5 = [10 * (- ln 0.5)]"
  proof -
    have "(0::real) < - ln 0.5" by simp
    then show ?thesis by (simp add: get_weibull_quantiles_def)
  qed
  have b: "\<exists>q. get_weibull_quantiles [l] [k] p = [q] \<and> 0 < q
             \<and> 1 - exp (- ((q / l) powr k)) = p"
    if "0 < k" "0 < l" "0 < p" "p < 1" for l k
  proof -
    let ?a = "- ln (1 - p)"
    have pos: "0 < ?a" using that by simp
    have "((l * ?a powr (1 / k)) / l) powr k = (?a powr (1 / k)) powr k"
      using that by simp
    also have "\<dots> = ?a powr 1" using that by (simp add: powr_powr)
    also have "\<dots> = ?a" using pos by simp
    finally have "1 - exp (- (((l * ?a powr (1 / k)) / l) powr k)) = p"
      using that by simp
    moreover have "0 < l * ?a powr (1 / k)" using that pos by simp
    ultimately show ?thesis by (simp add: get_weibull_quantiles_def)
  qed
  have c: "get_weibull_quantiles weibull_lambda weibull_k p
     = map2 (\<lambda>l k. l * (- ln (1 - p)) powr (1 / k)) weibull_lambda weibull_k"
    by (simp add: get_weibull_quantiles_def)
  show ?thesis using a b c by blast
qed

theorem get_weibull_quantiles_formula_witness:
  "(0::real) < 1 \<and> (0::real) < 10 \<and> (0::real) < 0.5 \<and> (0.5::real) < 1
   \<and> (\<exists>q. get_weibull_quantiles [10] [1] 0.5 = [q] \<and> 0 < q
         \<and> 1 - exp (- ((q / 10) powr 1)) = 0.5)"
proof -
  have "\<forall>l k. 0 < k \<and> 0 < l \<and> (0::real) < 0.5 \<and> (0.5::real) < 1 \<longrightarrow>
        (\<exists>q. get_weibull_quantiles [l] [k] 0.5 = [q] \<and> 0 < q
           \<and> 1 - exp (- ((q / l) powr k)) = 0.5)"
    using get_weibull_quantiles_formula [of "[]" "[]" "0.5"] by blast
  from this [rule_format, of 1 10] show ?thesis by simp
qed

section \<open>Properties of the masked losses\<close>

lemma bce_loop_sums:
  "bce_loop f batch (l, c) =
     (l + (\<Sum>s\<leftarrow>batch. sum_list (map2 (*) (map2 f (pred_color s) (true_color s))
                                   (class_availability s))),
      c + (\<Sum>s\<leftarrow>batch. sum_list (class_availability s)))"
  by (induction batch arbitrary: l c) (simp_all add: Let_def algebra_simps)

lemma tte_loop_sums:
  "tte_loop batch (l, c) =
     (l - (\<Sum>s\<leftarrow>batch. sum_list (map zero_nonfinite
                                   (map2 float_times (tte_log_prob s) (tte_availability s)))),
      c + (\<Sum>s\<leftarrow>batch. sum_list (tte_availability s)))"
  by (induction batch arbitrary: l c) (simp_all add: Let_def algebra_simps)

lemma flags_sum_nonneg:
  assumes "\<forall>a \<in> set flags. a = 0 \<or> a = (1::real)"
  shows "0 \<le> sum_list flags"
  using assms by (intro sum_list_nonneg) auto

lemma flags_sum_zero:
  assumes "\<forall>a \<in> set flags. a = 0 \<or> a = (1::real)" "sum_list flags = 0"
  shows "\<forall>a \<in> set flags. a = 0"
proof -
  have "\<forall>a \<in> set flags. 0 \<le> a" using assms(1) by auto
  then show ?thesis using assms(2) by (simp add: sum_list_nonneg_eq_0_iff)
qed

lemma masked_products_zero:
  assumes "\<forall>a \<in> set flags. a = (0::real)"
  shows "sum_list (map2 (*) xs flags) = 0"
  using assms
proof (induction xs arbitrary: flags)
  case Nil
  show ?case by simp
next
  case (Cons x xs)
  then show ?case by (cases flags) auto
qed

lemma masked_log_probs_zero:
  assumes "\<forall>a \<in> set flags. a = (0::real)"
  shows "sum_list (map zero_nonfinite (map2 float_times lps flags)) = 0"
  using assms
proof (induction lps arbitrary: flags)
  case Nil
  show ?case by simp
next
  case (Cons x xs)
  then show ?case
    by (cases flags) (auto simp: float_times_def zero_nonfinite_def split: float32.splits)
qed

lemma batch_count_nonneg:
  assumes "\<forall>s \<in> set batch. \<forall>a \<in> set (g s). a = 0 \<or> a = (1::real)"
  shows "0 \<le> (\<Sum>s\<leftarrow>batch. sum_list (g s))"
  using assms by (intro sum_list_nonneg) (auto intro: flags_sum_nonneg)

lemma batch_count_zero:
  assumes "\<forall>s \<in> set batch. \<forall>a \<in> set (g s). a = 0 \<or> a = (1::real)"
    and "(\<Sum>s\<leftarrow>batch. sum_list (g s)) = 0"
  shows "\<forall>s \<in> set batch. \<forall>a \<in> set (g s). a = 0"
  using assms
proof (induction batch)
  case Nil
  show ?case by simp
next
  case (Cons s batch)
  have h: "0 \<le> sum_list (g s)" using Cons.prems(1) by (intro flags_sum_nonneg) simp
  have t: "0 \<le> (\<Sum>s\<leftarrow>batch. sum_list (g s))"
    using Cons.prems(1) by (intro batch_count_nonneg) simp
  from Cons.prems(2) have "sum_list (g s) + (\<Sum>s\<leftarrow>batch. sum_list (g s)) = 0" by simp
  with h t have z: "sum_list (g s) = 0" "(\<Sum>s\<leftarrow>batch. sum_list (g s)) = 0"
    by linarith+
  have "\<forall>a \<in> set (g s). a = 0"
    using flags_sum_zero [OF _ z(1)] Cons.prems(1) by simp
  moreover have "\<forall>s \<in> set batch. \<forall>a \<in> set (g s). a = 0"
    using Cons.IH z(2) Cons.prems(1) by simp
  ultimately show ?case by simp
qed

lemma masked_bce_batch_zero:
  assumes "\<forall>s \<in> set batch. \<forall>a \<in> set (class_availability s). a = 0 \<or> a = 1"
    and "(\<Sum>s\<leftarrow>batch. sum_list (class_availability s)) = 0"
  shows "(\<Sum>s\<leftarrow>batch. sum_list (map2 (*) (map2 f (pred_color s) (true_color s))
                                   (class_availability s))) = 0"
proof -
  have "\<forall>s \<in> set batch. \<forall>a \<in> set (class_availability s). a = 0"
    using batch_count_zero [OF assms] .
  then have "\<forall>s \<in> set batch. sum_list (map2 (*) (map2 f (pred_color s) (true_color s))
                                   (class_availability s)) = 0"
    using masked_products_zero by blast
  then show ?thesis by (induction batch) simp_all
qed

lemma masked_tte_batch_zero:
  assumes "\<forall>s \<in> set batch. \<forall>a \<in> set (tte_availability s). a = 0 \<or> a = 1"
    and "(\<Sum>s\<leftarrow>batch. sum_list (tte_availability s)) = 0"
  shows "(\<Sum>s\<leftarrow>batch. sum_list (map zero_nonfinite
                                   (map2 float_times (tte_log_prob s) (tte_availability s)))) = 0"
proof -
  have "\<forall>s \<in> set batch. \<forall>a \<in> set (tte_availability s). a = 0"
    using batch_count_zero [OF assms] .
  then have "\<forall>s \<in> set batch. sum_list (map zero_nonfinite
                                   (map2 float_times (tte_log_prob s) (tte_availability s))) = 0"
    using masked_log_probs_zero by blast
  then show ?thesis by (induction batch) simp_all
qed

text \<open>
  Claim C1. In the training step, the validation step and the evaluation of
  \<^verbatim>\<open>predict\<close>, for a batch whose availability flags are 0 or 1 (as the dataset produces
  them), the count that divides each masked loss term is the sum over all signals of the
  per-sample availability flags; each term is the masked sum divided by that count, and
  it is exactly 0 when the count is 0, where no division takes place.
\<close>

theorem masked_loss_denominators:
  assumes flags: "\<forall>s \<in> set batch.
            (\<forall>a \<in> set (class_availability s). a = 0 \<or> a = 1)
          \<and> (\<forall>a \<in> set (tte_availability s). a = 0 \<or> a = 1)"
    and step: "step = train_batch_losses \<or> step = val_batch_losses \<or> step = predict_batch_losses"
  shows "bce_terms_count (step binary_crossentropy batch)
           = (\<Sum>s\<leftarrow>batch. sum_list (class_availability s))
       \<and> tte_terms_count (step binary_crossentropy batch)
           = (\<Sum>s\<leftarrow>batch. sum_list (tte_availability s))
       \<and> bce_term (step binary_crossentropy batch)
           = (if (\<Sum>s\<leftarrow>batch. sum_list (class_availability s)) = 0 then 0
              else (\<Sum>s\<leftarrow>batch. sum_list (map2 (*)
                       (map2 binary_crossentropy (pred_color s) (true_color s))
                       (class_availability s)))
                   / (\<Sum>s\<leftarrow>batch. sum_list (class_availability s)))
       \<and> tte_term (step binary_crossentropy batch)
           = (if (\<Sum>s\<leftarrow>batch. sum_list (tte_availability s)) = 0 then 0
              else - (\<Sum>s\<leftarrow>batch. sum_list (map zero_nonfinite
                       (map2 float_times (tte_log_prob s) (tte_availability s))))
                   / (\<Sum>s\<leftarrow>batch. sum_list (tte_availability s)))"
proof -
  have c1: "0 \<le> (\<Sum>s\<leftarrow>batch. sum_list (class_availability s))"
    using flags by (intro batch_count_nonneg) simp
  have c2: "0 \<le> (\<Sum>s\<leftarrow>batch. sum_list (tte_availability s))"
    using flags by (intro batch_count_nonneg) simp
  have z1: "(\<Sum>s\<leftarrow>batch. sum_list (class_availability s)) = 0 \<Longrightarrow>
      (\<Sum>s\<leftarrow>batch. sum_list (map2 (*) (map2 binary_crossentropy (pred_color s) (true_color s))
                                   (class_availability s))) = 0"
    using flags by (intro masked_bce_batch_zero) simp_all
  have z2: "(\<Sum>s\<leftarrow>batch. sum_list (tte_availability s)) = 0 \<Longrightarrow>
      (\<Sum>s\<leftarrow>batch. sum_list (map zero_nonfinite
                                   (map2 float_times (tte_log_prob s) (tte_availability s)))) = 0"
    using flags by (intro masked_tte_batch_zero) simp_all
  from step show ?thesis
  proof (elim disjE)
    assume "step = train_batch_losses"
    then show ?thesis using c1 c2 z1 z2
      by (simp add: train_batch_losses_def bce_loop_sums tte_loop_sums Let_def)
  next
    assume "step = val_batch_losses"
    then show ?thesis using c1 c2 z1 z2
      by (simp add: val_batch_losses_def bce_loop_sums tte_loop_sums Let_def)
  next
    assume "step = predict_batch_losses"
    then show ?thesis using c1 c2 z1 z2
      by (simp add: predict_batch_losses_def bce_loop_sums tte_loop_sums Let_def)
  qed
qed

theorem masked_loss_denominators_witness:
  "bce_terms_count (train_batch_losses BCELoss example_batch) = 2
   \<and> tte_terms_count (val_batch_losses BCELoss example_batch) = 2
   \<and> bce_term (train_batch_losses BCELoss example_batch)
       = (BCELoss 0.5 1 + BCELoss 0.5 1) / 2
   \<and> tte_term (val_batch_losses BCELoss example_batch) = 5 / 2
   \<and> bce_terms_count (predict_batch_losses BCELoss example_batch_unlabelled) = 0
   \<and> bce_term (predict_batch_losses BCELoss example_batch_unlabelled) = 0
   \<and> tte_term (predict_batch_losses BCELoss example_batch_unlabelled) = 0"
  using masked_loss_denominators [of example_batch train_batch_losses BCELoss]
    masked_loss_denominators [of example_batch val_batch_losses BCELoss]
    masked_loss_denominators [of example_batch_unlabelled predict_batch_losses BCELoss]
  by (simp add: example_batch_def example_batch_unlabelled_def float_times_def
        zero_nonfinite_def)

text \<open>
  Claim C8. For one and the same batch (flags 0 or 1), the training loss is the
  classification term plus the survival term, the validation loss is the classification
  term plus half the survival term, and the two terms themselves are the same in both
  steps.
\<close>

theorem train_val_loss_weighting:
  assumes flags: "\<forall>s \<in> set batch.
            (\<forall>a \<in> set (class_availability s). a = 0 \<or> a = 1)
          \<and> (\<forall>a \<in> set (tte_availability s). a = 0 \<or> a = 1)"
  shows "loss (train_batch_losses binary_crossentropy batch)
           = bce_term (train_batch_losses binary_crossentropy batch)
             + tte_term (train_batch_losses binary_crossentropy batch)
       \<and> loss (val_batch_losses binary_crossentropy batch)
           = bce_term (val_batch_losses binary_crossentropy batch)
             + tte_term (val_batch_losses binary_crossentropy batch) / 2
       \<and> bce_term (val_batch_losses binary_crossentropy batch)
           = bce_term (train_batch_losses binary_crossentropy batch)
       \<and> tte_term (val_batch_losses binary_crossentropy batch)
           = tte_term (train_batch_losses binary_crossentropy batch)"
proof -
  have c1: "0 \<le> (\<Sum>s\<leftarrow>batch. sum_list (class_availability s))"
    using flags by (intro batch_count_nonneg) simp
  have c2: "0 \<le> (\<Sum>s\<leftarrow>batch. sum_list (tte_availability s))"
    using flags by (intro batch_count_nonneg) simp
  have g1: "(0 < (\<Sum>s\<leftarrow>batch. sum_list (class_availability s)))
              = ((\<Sum>s\<leftarrow>batch. sum_list (class_availability s)) \<noteq> 0)"
    using c1 by linarith
  have g2: "(0 < (\<Sum>s\<leftarrow>batch. sum_list (tte_availability s)))
              = ((\<Sum>s\<leftarrow>batch. sum_list (tte_availability s)) \<noteq> 0)"
    using c2 by linarith
  show ?thesis
    by (simp add: train_batch_losses_def val_batch_losses_def bce_loop_sums tte_loop_sums
          Let_def g1 g2)
qed

theorem train_val_loss_weighting_witness:
  "loss (train_batch_losses BCELoss example_batch)
     = bce_term (train_batch_losses BCELoss example_batch) + 5 / 2
   \<and> loss (val_batch_losses BCELoss example_batch)
     = bce_term (train_batch_losses BCELoss example_batch) + 5 / 4
   \<and> tte_term (val_batch_losses BCELoss example_batch) = 5 / 2"
proof -
  have t: "tte_term (train_batch_losses BCELoss example_batch) = 5 / 2"
    by (simp add: train_batch_losses_def example_batch_def float_times_def
          zero_nonfinite_def Let_def split: prod.splits)
  have "\<forall>s \<in> set example_batch.
            (\<forall>a \<in> set (class_availability s). a = 0 \<or> a = 1)
          \<and> (\<forall>a \<in> set (tte_availability s). a = 0 \<or> a = 1)"
    by (simp add: example_batch_def)
  from train_val_loss_weighting [OF this, of BCELoss] t show ?thesis by simp
qed

section \<open>Properties of the valid history length\<close>

lemma iloc_nat: "i < length xs \<Longrightarrow> iloc xs (int i) = Inr (xs ! i)"
  by (simp add: iloc_def)

lemma last_valid_idx_loop_step:
  assumes "k < length cont"
  shows "last_valid_idx_loop cont r (int k) =
           (if r - int k + 1 < 100 \<and> cont ! k
            then last_valid_idx_loop cont r (int k - 1) else Inr (int k))"
  by (subst last_valid_idx_loop.simps) (simp add: iloc_nat [OF assms] HIST_LEN_FRAMES_def)

lemma last_valid_idx_loop_run:
  assumes "\<not> cont ! 0" "i < length cont" "l \<le> i" "i - l \<le> 99"
  shows "last_valid_idx_loop cont (int i) (int l)
           = Inr (int i - int (min 99 (i - l + continuous_run cont l)))"
  using assms(3,4)
proof (induction l)
  case 0
  have "0 < length cont" using assms(2) by auto
  from last_valid_idx_loop_step [OF this] assms(1) 0 show ?case
    by simp
next
  case (Suc l)
  have k: "Suc l < length cont" using Suc.prems assms(2) by simp
  note step = last_valid_idx_loop_step [OF k, of "int i"]
  have dec: "int (Suc l) - 1 = int l" by simp
  show ?case
  proof (cases "int i - int (Suc l) + 1 < 100 \<and> cont ! Suc l")
    case True
    then have a: "int i - int (Suc l) + 1 < 100" and c: "cont ! Suc l"
      by simp_all
    have "i - l \<le> 99" using a Suc.prems by linarith
    with Suc have ih: "last_valid_idx_loop cont (int i) (int l)
           = Inr (int i - int (min 99 (i - l + continuous_run cont l)))" by simp
    have rhs: "min 99 (i - Suc l + continuous_run cont (Suc l))
                 = min 99 (i - l + continuous_run cont l)"
      using c Suc.prems by simp
    have "last_valid_idx_loop cont (int i) (int (Suc l))
            = last_valid_idx_loop cont (int i) (int l)"
      using True by (simp only: step dec simp_thms if_True)
    then show ?thesis by (simp only: ih rhs)
  next
    case False
    then have r: "last_valid_idx_loop cont (int i) (int (Suc l)) = Inr (int (Suc l))"
      by (simp only: step if_False)
    have "min 99 (i - Suc l + continuous_run cont (Suc l)) = i - Suc l"
    proof (cases "cont ! Suc l")
      case True
      with False have "\<not> int i - int (Suc l) + 1 < 100" by simp
      then have "i - Suc l = 99" using Suc.prems by linarith
      then show ?thesis by simp
    next
      case False
      then show ?thesis using Suc.prems by simp
    qed
    then show ?thesis using Suc.prems unfolding r by (simp del: of_nat_Suc)
  qed
qed

lemma valid_hist_len_of_row_run:
  assumes "\<not> cont ! 0" "i < length cont"
  shows "valid_hist_len_of_row cont i = Inr (int (min 99 (continuous_run cont i)))"
  using last_valid_idx_loop_run [OF assms, of i]
  by (simp add: valid_hist_len_of_row_def)

lemma valid_hist_len_rows_run:
  assumes "\<not> cont ! 0" "\<forall>i \<in> set rows. i < length cont"
  shows "valid_hist_len_rows cont rows
           = Inr (map (\<lambda>i. int (min 99 (continuous_run cont i))) rows)"
  using assms(2)
  by (induction rows) (simp_all add: valid_hist_len_of_row_run [OF assms(1)])

lemma valid_hist_len_of_row_break:
  assumes "i < length cont" "\<not> cont ! i"
  shows "valid_hist_len_of_row cont i = Inr 0"
  using assms by (simp add: valid_hist_len_of_row_def last_valid_idx_loop_step)

lemma continuous_run_break: "\<not> cont ! i \<Longrightarrow> continuous_run cont i = 0"
  by (cases i) simp_all

lemma continuous_run_le: "\<not> cont ! 0 \<Longrightarrow> continuous_run cont i \<le> i"
  by (induction i) simp_all

lemma continuous_run_takeWhile:
  "i < length cont \<Longrightarrow> continuous_run cont i = length (takeWhile id (rev (take (Suc i) cont)))"
proof (induction i)
  case 0
  then show ?case by (cases cont) simp_all
next
  case (Suc i)
  then have "take (Suc (Suc i)) cont = take (Suc i) cont @ [cont ! Suc i]"
    by (simp add: take_Suc_conv_app_nth)
  with Suc show ?case by simp
qed

lemma synthetic_table_flags: "map continuous_time synthetic_table = [False, True, True]"
  by (simp add: synthetic_table_def synthetic_rows_def add_continuous_time_def
        continuous_time_column_def)


text \<open>
  Claim C4. A row whose continuity flag is false gets the valid history length 0. On a
  table whose first row has a false flag (the first row has no predecessor, and the
  derived column is false there), \<^verbatim>\<open>compute_last_valid_idx_for_seq\<close> returns, and the
  valid history length of every row is the number of rows met walking backward from it
  while the continuity flag holds, capped at 99, so that the preceding rows and the
  target row together are at most \<open>HIST_LEN_FRAMES = 100\<close> frames; it never reaches
  before the first row. Only the column \<^verbatim>\<open>valid_hist_len\<close> changes.
\<close>

theorem valid_hist_len_capped_continuous_run:
  "(\<forall>i < length df. \<not> continuous_time (df ! i) \<longrightarrow>
        valid_hist_len_of_row (map continuous_time df) i = Inr 0)
   \<and> ((\<forall>r \<in> set (take 1 df). \<not> continuous_time r) \<longrightarrow>
        (\<exists>df'. compute_last_valid_idx_for_seq df = Inr df' \<and> length df' = length df
           \<and> (\<forall>i < length df.
                 df' ! i = (df ! i)\<lparr>valid_hist_len :=
                              int (min 99 (continuous_run (map continuous_time df) i))\<rparr>
               \<and> valid_hist_len (df' ! i) + 1 \<le> HIST_LEN_FRAMES
               \<and> valid_hist_len (df' ! i) \<le> int i
               \<and> (\<not> continuous_time (df ! i) \<longrightarrow> valid_hist_len (df' ! i) = 0))))"
proof (intro conjI allI impI)
  fix i assume "i < length df" "\<not> continuous_time (df ! i)"
  then show "valid_hist_len_of_row (map continuous_time df) i = Inr 0"
    by (intro valid_hist_len_of_row_break) simp_all
next
  let ?cont = "map continuous_time df"
  let ?vs = "map (\<lambda>i. int (min 99 (continuous_run ?cont i))) [0..<length df]"
  assume first: "\<forall>r \<in> set (take 1 df). \<not> continuous_time r"
  show "\<exists>df'. compute_last_valid_idx_for_seq df = Inr df' \<and> length df' = length df
           \<and> (\<forall>i < length df.
                 df' ! i = (df ! i)\<lparr>valid_hist_len :=
                              int (min 99 (continuous_run (map continuous_time df) i))\<rparr>
               \<and> valid_hist_len (df' ! i) + 1 \<le> HIST_LEN_FRAMES
               \<and> valid_hist_len (df' ! i) \<le> int i
               \<and> (\<not> continuous_time (df ! i) \<longrightarrow> valid_hist_len (df' ! i) = 0))"
  proof (cases df)
    case Nil
    then show ?thesis by (simp add: compute_last_valid_idx_for_seq_def)
  next
    case (Cons r rs)
    with first have c0: "\<not> ?cont ! 0" by simp
    have rows: "valid_hist_len_rows ?cont [0..<length df] = Inr ?vs"
      by (intro valid_hist_len_rows_run [OF c0]) simp
    let ?df' = "map2 (\<lambda>r v. r\<lparr>valid_hist_len := v\<rparr>) df ?vs"
    have res: "compute_last_valid_idx_for_seq df = Inr ?df'"
      by (simp add: compute_last_valid_idx_for_seq_def rows)
    have "?df' ! i = (df ! i)\<lparr>valid_hist_len := int (min 99 (continuous_run ?cont i))\<rparr>
          \<and> valid_hist_len (?df' ! i) + 1 \<le> HIST_LEN_FRAMES
          \<and> valid_hist_len (?df' ! i) \<le> int i
          \<and> (\<not> continuous_time (df ! i) \<longrightarrow> valid_hist_len (?df' ! i) = 0)"
      if "i < length df" for i
      using that continuous_run_le [OF c0, of i]
      by (auto simp: HIST_LEN_FRAMES_def continuous_run_break)
    then show ?thesis using res by (intro exI [of _ ?df']) simp
  qed
qed

theorem valid_hist_len_capped_continuous_run_witness:
  "\<exists>df'. compute_last_valid_idx_for_seq synthetic_table = Inr df'
         \<and> map valid_hist_len df' = [0, 1, 2]"
proof -
  have len: "length synthetic_table = 3"
    using arg_cong [OF synthetic_table_flags, of length] by simp
  have "\<forall>r \<in> set (take 1 synthetic_table). \<not> continuous_time r"
    by (simp add: synthetic_table_def synthetic_rows_def add_continuous_time_def
          continuous_time_column_def)
  with valid_hist_len_capped_continuous_run [of synthetic_table] obtain df' where
    res: "compute_last_valid_idx_for_seq synthetic_table = Inr df'" and
    l: "length df' = length synthetic_table" and
    el: "\<forall>i < length synthetic_table.
           df' ! i = (synthetic_table ! i)\<lparr>valid_hist_len :=
              int (min 99 (continuous_run (map continuous_time synthetic_table) i))\<rparr>"
    by blast
  have "valid_hist_len (df' ! i) = [0, 1, 2] ! i" if "i < 3" for i
  proof -
    have "i = 0 \<or> i = 1 \<or> i = 2" using that by linarith
    then show ?thesis using el len
      by (auto simp: synthetic_table_flags numeral_2_eq_2)
  qed
  then have "map valid_hist_len df' = [0, 1, 2]"
    using l len by (intro nth_equalityI) simp_all
  with res show ?thesis by (intro exI [of _ df']) simp
qed

section \<open>Properties of the vocabulary and of the history builder\<close>

lemma update_absent: "map_of al k = None \<Longrightarrow> AList.update k v al = al @ [(k, v)]"
  by (induction al) (auto split: if_splits)

lemma update_present_keys:
  "map_of al k \<noteq> None \<Longrightarrow> map fst (AList.update k v al) = map fst al"
  by (induction al) (auto split: if_splits)

lemma map_of_keys_eq:
  "map fst v = map fst f \<Longrightarrow> (map_of v k = None) = (map_of f k = None)"
  by (metis map_of_eq_None_iff set_map)

lemma vocab_add_token_inv:
  assumes "vocab_inv st"
  shows "\<exists>st'. vocab_add_token st tok = Inr st' \<and> vocab_inv st'"
proof -
  obtain v f where st: "st = (v, f)" by (cases st)
  with assms have k: "map fst v = map fst f" and d: "distinct (map fst v)"
    and n: "map snd v = [0..<length v]"
    by (auto simp: vocab_inv_def)
  show ?thesis
  proof (cases "map_of v tok")
    case None
    then have fn: "map_of f tok = None" using map_of_keys_eq [OF k] by simp
    have "tok \<notin> set (map fst v)" using None by (simp add: map_of_eq_None_iff)
    then show ?thesis using None fn k d n
      by (simp add: st vocab_inv_def update_absent)
  next
    case (Some i)
    then have "map_of f tok \<noteq> None" using map_of_keys_eq [OF k, of tok] by simp
    then obtain c where c: "map_of f tok = Some c" by auto
    then show ?thesis using Some k d n
      by (simp add: st vocab_inv_def update_present_keys)
  qed
qed

lemma vocab_add_frame_inv:
  "vocab_inv st \<Longrightarrow> \<exists>st'. vocab_add_frame st frame = Inr st' \<and> vocab_inv st'"
proof (induction frame arbitrary: st)
  case Nil
  then show ?case by simp
next
  case (Cons ev frame)
  obtain tok ohe where ev: "ev = (tok, ohe)" by (cases ev)
  from vocab_add_token_inv [OF Cons.prems, of tok] obtain st1 where
    "vocab_add_token st tok = Inr st1" "vocab_inv st1" by blast
  then show ?case using Cons.IH [of st1] by (simp add: ev)
qed

lemma vocab_add_frames_inv:
  "vocab_inv st \<Longrightarrow> \<exists>st'. vocab_add_frames st frames = Inr st' \<and> vocab_inv st'"
proof (induction frames arbitrary: st)
  case Nil
  then show ?case by simp
next
  case (Cons frame frames)
  from vocab_add_frame_inv [OF Cons.prems, of frame] obtain st1 where
    "vocab_add_frame st frame = Inr st1" "vocab_inv st1" by blast
  then show ?case using Cons.IH [of st1] by simp
qed

lemma build_train_vocab_inv:
  "\<exists>v f. build_train_vocab df idx = Inr (v, f) \<and> vocab_inv (v, f)"
proof -
  have "vocab_inv ([], [])" by (simp add: vocab_inv_def)
  from vocab_add_frames_inv [OF this] show ?thesis
    unfolding build_train_vocab_def by (metis surj_pair)
qed

lemma vocab_inv_index_bound:
  assumes "vocab_inv (v, f)" "map_of v tok = Some i"
  shows "i < length v"
proof -
  from assms(2) have "(tok, i) \<in> set v" by (rule map_of_SomeD)
  then have "i \<in> set (map snd v)" by force
  with assms(1) show ?thesis by (simp add: vocab_inv_def)
qed

lemma vocab_inv_freq_present:
  assumes "vocab_inv (v, f)" "map_of v tok = Some i"
  shows "\<exists>c. map_of f tok = Some c"
proof -
  from assms(1) have "map fst v = map fst f" by (simp add: vocab_inv_def)
  from map_of_keys_eq [OF this, of tok] assms(2) show ?thesis by auto
qed


lemma timestep_events_loop_Inr:
  assumes "timestep_events_loop ds ts evs (toks, ohes, ws) = Inr (toks', ohes', ws')"
  shows "\<exists>new. toks' = toks @ new
           \<and> map Inr new = map (\<lambda>e. token_idx_of ds (fst e)) evs
           \<and> ohes' = ohes @ map snd evs
           \<and> ws' = ws @ replicate (length evs)
                        (real_of_int ts / real_of_int (history_len_records ds))"
  using assms
proof (induction evs arbitrary: toks ohes ws)
  case Nil
  then show ?case by simp
next
  case (Cons ev evs)
  obtain tok ohe where ev: "ev = (tok, ohe)" by (cases ev)
  from Cons.prems obtain idx where
    idx: "token_idx_of ds tok = Inr idx" and
    rest: "timestep_events_loop ds ts evs
             (toks @ [idx], ohes @ [ohe],
              ws @ [real_of_int ts / real_of_int (history_len_records ds)])
           = Inr (toks', ohes', ws')"
    by (auto simp: ev split: if_splits sum.splits)
  from Cons.IH [OF rest] obtain new where
    n: "toks' = (toks @ [idx]) @ new"
       "map Inr new = map (\<lambda>e. token_idx_of ds (fst e)) evs"
       "ohes' = (ohes @ [ohe]) @ map snd evs"
       "ws' = (ws @ [real_of_int ts / real_of_int (history_len_records ds)])
                @ replicate (length evs)
                    (real_of_int ts / real_of_int (history_len_records ds))"
    by blast
  show ?case
    by (rule exI [of _ "idx # new"]) (simp add: n ev idx replicate_app_Cons_same)
qed

lemma raw_inputs_hist_loop_range:
  assumes "raw_inputs_hist_loop ds (int n) (map g [a..<a + n]) (toks, ohes, ws)
             = Inr (toks', ohes', ws')"
  shows "\<exists>new. toks' = toks @ new
           \<and> map Inr new = map (\<lambda>e. token_idx_of ds (fst e)) (concat (map g [a..<a + n]))
           \<and> ohes' = ohes @ map snd (concat (map g [a..<a + n]))
           \<and> ws' = ws @ concat (map (\<lambda>j. replicate (length (g j))
                                     (real (a + n - j) / real_of_int (history_len_records ds)))
                              [a..<a + n])"
  using assms
proof (induction n arbitrary: a toks ohes ws)
  case 0
  then show ?case by simp
next
  case (Suc n)
  have range: "[a..<a + Suc n] = a # [Suc a..<Suc a + n]"
    by (simp add: upt_conv_Cons)
  have dec: "int (Suc n) - 1 = int n" by simp
  from Suc.prems obtain t1 o1 w1 where
    first: "timestep_events_loop ds (int (Suc n)) (g a) (toks, ohes, ws) = Inr (t1, o1, w1)" and
    rest: "raw_inputs_hist_loop ds (int n) (map g [Suc a..<Suc a + n]) (t1, o1, w1)
             = Inr (toks', ohes', ws')"
    unfolding range list.map raw_inputs_hist_loop.simps dec
    by (auto split: sum.splits)
  from timestep_events_loop_Inr [OF first] obtain new1 where
    a1: "t1 = toks @ new1"
        "map Inr new1 = map (\<lambda>e. token_idx_of ds (fst e)) (g a)"
        "o1 = ohes @ map snd (g a)"
        "w1 = ws @ replicate (length (g a))
                     (real_of_int (int (Suc n)) / real_of_int (history_len_records ds))"
    by blast
  from Suc.IH [OF rest] obtain new2 where
    a2: "toks' = t1 @ new2"
        "map Inr new2 = map (\<lambda>e. token_idx_of ds (fst e)) (concat (map g [Suc a..<Suc a + n]))"
        "ohes' = o1 @ map snd (concat (map g [Suc a..<Suc a + n]))"
        "ws' = w1 @ concat (map (\<lambda>j. replicate (length (g j))
                                   (real (Suc a + n - j) / real_of_int (history_len_records ds)))
                            [Suc a..<Suc a + n])"
    by blast
  show ?case
    unfolding range
    by (rule exI [of _ "new1 @ new2"]) (simp add: a1 a2)
qed


lemma drop_take_nth: "b \<le> length xs \<Longrightarrow> drop a (take b xs) = map (nth xs) [a..<b]"
  by (rule nth_equalityI) auto

lemma iloc_slice_window:
  assumes "row_i < length xs" "0 \<le> h" "h \<le> int row_i"
  shows "iloc_slice xs (int row_i - h) (int row_i + 1)
           = map (nth xs) [row_i - nat h..<Suc row_i]"
proof -
  have a: "slice_bound (int (length xs)) (int row_i - h) = row_i - nat h"
    using assms by (auto simp: slice_bound_def)
  have b: "slice_bound (int (length xs)) (int row_i + 1) = Suc row_i"
    using assms by (auto simp: slice_bound_def)
  show ?thesis using assms(1) by (simp add: iloc_slice_def a b drop_take_nth)
qed

lemma getitem_Inr:
  assumes ok: "getitem ds index = Inr s"
    and row: "row_i = valid_indices ds ! index"
    and hist: "h = min (history_len_records ds) (valid_hist_len (tl_events_df ds ! row_i))"
    and h0: "0 \<le> h" and h1: "h \<le> int row_i"
  shows "index < length (valid_indices ds) \<and> row_i < length (tl_events_df ds)
       \<and> (\<exists>new pad.
            int pad = history_events_max ds - int (length new)
          \<and> seq_len s = length new
          \<and> tokens_np s = new @ replicate pad (PAD_TOKEN_IDX ds)
          \<and> map Inr new = map (\<lambda>e. token_idx_of ds (fst e))
               (concat (map (\<lambda>j. rnn_inputs_raw (tl_events_df ds ! j))
                          [row_i - nat h..<Suc row_i]))
          \<and> token_type_ohe_np s =
               map snd (concat (map (\<lambda>j. rnn_inputs_raw (tl_events_df ds ! j))
                                  [row_i - nat h..<Suc row_i]))
               @ replicate pad [0, 0, 0, 0]
          \<and> token_timesteps_np s =
               concat (map (\<lambda>j. replicate (length (rnn_inputs_raw (tl_events_df ds ! j)))
                              (real (Suc row_i - j) / real_of_int (history_len_records ds)))
                         [row_i - nat h..<Suc row_i])
               @ replicate pad 0)"
proof -
  let ?df = "tl_events_df ds"
  let ?g = "\<lambda>j. rnn_inputs_raw (?df ! j)"
  from ok have idx: "index < length (valid_indices ds)"
    by (auto simp: getitem_def split: if_splits)
  from ok idx row have "iloc ?df (int row_i) \<noteq> Inl IndexError"
    by (auto simp: getitem_def Let_def split: sum.splits)
  then have len: "row_i < length ?df"
    by (auto simp: iloc_def split: if_splits)
  then have il: "iloc ?df (int row_i) = Inr (?df ! row_i)"
    by (simp add: iloc_def)
  have sl: "iloc_slice (map rnn_inputs_raw ?df) (int row_i - h) (int row_i + 1)
              = map ?g [row_i - nat h..<(row_i - nat h) + (nat h + 1)]"
  proof -
    have "(row_i - nat h) + (nat h + 1) = Suc row_i" using h0 h1 by linarith
    moreover have "map (nth (map rnn_inputs_raw ?df)) [row_i - nat h..<Suc row_i]
                     = map ?g [row_i - nat h..<Suc row_i]"
      using len by simp
    ultimately show ?thesis using iloc_slice_window [of row_i "map rnn_inputs_raw ?df" h] len h0 h1
      by simp
  qed
  have ts: "h + 1 = int (nat h + 1)" using h0 by simp
  from ok idx obtain toks ohes ws where
    loop: "raw_inputs_hist_loop ds (int (nat h + 1))
             (map ?g [row_i - nat h..<(row_i - nat h) + (nat h + 1)]) ([], [], [])
           = Inr (toks, ohes, ws)" and
    pad: "0 \<le> history_events_max ds - int (length toks)" and
    s: "tokens_np s = toks @ replicate (nat (history_events_max ds - int (length toks)))
                              (PAD_TOKEN_IDX ds)"
       "token_type_ohe_np s = ohes @ replicate (nat (history_events_max ds - int (length toks)))
                                       [0, 0, 0, 0]"
       "token_timesteps_np s = ws @ replicate (nat (history_events_max ds - int (length toks))) 0"
       "seq_len s = length toks"
    unfolding getitem_def Let_def row [symmetric] il sum.case hist [symmetric] sl ts
    by (auto split: if_splits sum.splits prod.splits)
  from raw_inputs_hist_loop_range [OF loop] obtain new where
    n: "toks = new"
       "map Inr new = map (\<lambda>e. token_idx_of ds (fst e))
                        (concat (map ?g [row_i - nat h..<(row_i - nat h) + (nat h + 1)]))"
       "ohes = map snd (concat (map ?g [row_i - nat h..<(row_i - nat h) + (nat h + 1)]))"
       "ws = concat (map (\<lambda>j. replicate (length (?g j))
                 (real ((row_i - nat h) + (nat h + 1) - j) / real_of_int (history_len_records ds)))
                 [row_i - nat h..<(row_i - nat h) + (nat h + 1)])"
    by auto
  have e: "(row_i - nat h) + (nat h + 1) = Suc row_i" using h0 h1 by linarith
  show ?thesis
    using idx len pad s n unfolding e
    by (intro conjI exI [of _ new] exI [of _ "nat (history_events_max ds - int (length new))"])
       simp_all
qed

lemma synthetic_table_eq:
  "synthetic_table =
     [\<lparr> timestamp = 0, master_intersection_idx = 0,
        rnn_inputs_raw = [(''car_in'', [1, 0, 0, 0])],
        tl_signal_classes = [], time_to_tl_change = [],
        continuous_time = False, valid_hist_len = - 1 \<rparr>,
      \<lparr> timestamp = 100000000, master_intersection_idx = 0,
        rnn_inputs_raw = [(''car_stop'', [0, 1, 0, 0])],
        tl_signal_classes = [], time_to_tl_change = [],
        continuous_time = True, valid_hist_len = - 1 \<rparr>,
      \<lparr> timestamp = 200000000, master_intersection_idx = 0,
        rnn_inputs_raw = [(''car_in'', [1, 0, 0, 0])],
        tl_signal_classes = [(7, 1)], time_to_tl_change = [(7, 2.5)],
        continuous_time = True, valid_hist_len = - 1 \<rparr>]"
  by (simp add: synthetic_table_def synthetic_rows_def add_continuous_time_def
        continuous_time_column_def)

lemma synthetic_vocab_built:
  "build_train_vocab synthetic_table 0 = Inr (synthetic_vocab, synthetic_freq)"
  by (simp add: build_train_vocab_def synthetic_table_eq synthetic_vocab_def synthetic_freq_def)

lemma synthetic_prepared_computed:
  "compute_last_valid_idx_for_seq synthetic_table = Inr synthetic_prepared"
  by (simp add: compute_last_valid_idx_for_seq_def synthetic_table_eq synthetic_prepared_def
        valid_hist_len_of_row_def last_valid_idx_loop.simps iloc_def HIST_LEN_FRAMES_def
        upt_rec numeral_3_eq_3)

lemma synthetic_getitem:
  "getitem synthetic_dataset 0 =
     Inr \<lparr> tokens_np = [0, 2, 0] @ replicate 97 3,
           token_type_ohe_np = [[1, 0, 0, 0], [0, 1, 0, 0], [1, 0, 0, 0]]
                                 @ replicate 97 [0, 0, 0, 0],
           token_timesteps_np = [3 / 100, 2 / 100, 1 / 100] @ replicate 97 0,
           seq_len = 3,
           all_true_classes = [(7, 1)],
           all_tte = [(7, 2.5)],
           classes_availabilities = [(7, 1)],
           tte_availabilities = [(7, 1)] \<rparr>"
  by (simp add: getitem_def synthetic_dataset_def IntersectionDataset_def
        synthetic_prepared_def synthetic_table_eq synthetic_vocab_def synthetic_freq_def
        max_events_per_timestamp_def HIST_LEN_FRAMES_def iloc_def iloc_slice_def
        slice_bound_def token_idx_of_def Let_def)


lemma raw_inputs_hist_loop_Inr:
  assumes "raw_inputs_hist_loop ds ts frames (toks, ohes, ws) = Inr (toks', ohes', ws')"
  shows "\<exists>new. toks' = toks @ new
           \<and> map Inr new = map (\<lambda>e. token_idx_of ds (fst e)) (concat frames)"
  using assms
proof (induction frames arbitrary: ts toks ohes ws)
  case Nil
  then show ?case by simp
next
  case (Cons frame frames)
  from Cons.prems obtain t1 o1 w1 where
    first: "timestep_events_loop ds ts frame (toks, ohes, ws) = Inr (t1, o1, w1)" and
    rest: "raw_inputs_hist_loop ds (ts - 1) frames (t1, o1, w1) = Inr (toks', ohes', ws')"
    by (auto split: sum.splits)
  from timestep_events_loop_Inr [OF first] obtain new1 where
    a1: "t1 = toks @ new1" "map Inr new1 = map (\<lambda>e. token_idx_of ds (fst e)) frame"
    by blast
  from Cons.IH [OF rest] obtain new2 where
    a2: "toks' = t1 @ new2"
        "map Inr new2 = map (\<lambda>e. token_idx_of ds (fst e)) (concat frames)"
    by blast
  show ?case by (rule exI [of _ "new1 @ new2"]) (simp add: a1 a2)
qed

lemma getitem_tokens:
  assumes "getitem ds index = Inr s" "t \<in> set (tokens_np s)"
  shows "t = PAD_TOKEN_IDX ds \<or> (\<exists>tok. token_idx_of ds tok = Inr t)"
proof -
  from assms(1) obtain ts frames toks ohes ws pad where
    loop: "raw_inputs_hist_loop ds ts frames ([], [], []) = Inr (toks, ohes, ws)" and
    out: "tokens_np s = toks @ replicate pad (PAD_TOKEN_IDX ds)"
    by (auto simp: getitem_def Let_def split: if_splits sum.splits prod.splits)
  from raw_inputs_hist_loop_Inr [OF loop] have
    m: "map Inr toks = map (\<lambda>e. token_idx_of ds (fst e)) (concat frames)"
    by simp
  from assms(2) out consider "t \<in> set toks" | "t = PAD_TOKEN_IDX ds" by auto
  then show ?thesis
  proof cases
    case 1
    then obtain k where k: "k < length toks" "toks ! k = t" by (auto simp: in_set_conv_nth)
    have l: "length toks = length (concat frames)"
      using map_eq_imp_length_eq [OF m] .
    from arg_cong [OF m, of "\<lambda>xs. xs ! k"] k l
    have "token_idx_of ds (fst (concat frames ! k)) = Inr t" by simp
    then show ?thesis by blast
  next
    case 2
    then show ?thesis by simp
  qed
qed

text \<open>
  Claim C9. A raw token resolves to the UNKNOWN index when it is absent from the
  vocabulary, and also when it has an assigned index but its recorded frequency is below
  \<open>min_freq\<close>; otherwise (assigned index, recorded frequency at least \<open>min_freq\<close>) it
  resolves to its assigned index. With the two dictionaries built by the vocabulary loop
  every token with an index has a recorded frequency, so the lookup never raises.
\<close>

theorem token_idx_of_unknown_or_assigned:
  "(map_of (vocab_term_2_idx ds) tok = None \<longrightarrow>
      token_idx_of ds tok = Inr (UNKNOWN_TOKEN_IDX ds))
   \<and> (\<forall>idx freq. map_of (vocab_term_2_idx ds) tok = Some idx
                  \<and> map_of (vocab_term_2_freq ds) tok = Some freq \<longrightarrow>
        token_idx_of ds tok = Inr (if freq < min_freq ds then UNKNOWN_TOKEN_IDX ds else idx))
   \<and> (\<forall>df_trn intersection_idx.
        build_train_vocab df_trn intersection_idx
          = Inr (vocab_term_2_idx ds, vocab_term_2_freq ds) \<longrightarrow>
        (\<exists>i. token_idx_of ds tok = Inr i))"
proof (intro conjI allI impI)
  fix df_trn intersection_idx
  assume b: "build_train_vocab df_trn intersection_idx
               = Inr (vocab_term_2_idx ds, vocab_term_2_freq ds)"
  from build_train_vocab_inv [of df_trn intersection_idx] b
  have inv: "vocab_inv (vocab_term_2_idx ds, vocab_term_2_freq ds)" by auto
  show "\<exists>i. token_idx_of ds tok = Inr i"
  proof (cases "map_of (vocab_term_2_idx ds) tok")
    case None
    then show ?thesis by (simp add: token_idx_of_def)
  next
    case (Some i)
    from vocab_inv_freq_present [OF inv Some] obtain c where
      "map_of (vocab_term_2_freq ds) tok = Some c" by blast
    with Some show ?thesis by (simp add: token_idx_of_def)
  qed
qed (auto simp: token_idx_of_def)

theorem token_idx_of_unknown_or_assigned_witness:
  "token_idx_of synthetic_dataset ''car_in'' = Inr 0
   \<and> token_idx_of synthetic_dataset ''car_stop'' = Inr 2
   \<and> token_idx_of synthetic_dataset ''bus'' = Inr 2
   \<and> map_of (vocab_term_2_idx synthetic_dataset) ''car_stop'' = Some 1
   \<and> UNKNOWN_TOKEN_IDX synthetic_dataset = 2"
proof -
  have v: "vocab_term_2_idx synthetic_dataset = synthetic_vocab"
       "vocab_term_2_freq synthetic_dataset = synthetic_freq"
       "min_freq synthetic_dataset = 2" "UNKNOWN_TOKEN_IDX synthetic_dataset = 2"
    by (simp_all add: synthetic_dataset_def IntersectionDataset_def synthetic_vocab_def)
  have a: "map_of synthetic_vocab ''car_in'' = Some 0 \<and> map_of synthetic_freq ''car_in'' = Some 2"
    and b: "map_of synthetic_vocab ''car_stop'' = Some 1 \<and> map_of synthetic_freq ''car_stop'' = Some 1"
    and c: "map_of synthetic_vocab ''bus'' = None"
    by (simp_all add: synthetic_vocab_def synthetic_freq_def)
  from token_idx_of_unknown_or_assigned [of synthetic_dataset "''car_in''"] token_idx_of_unknown_or_assigned [of synthetic_dataset "''car_stop''"]
    token_idx_of_unknown_or_assigned [of synthetic_dataset "''bus''"] a b c
  show ?thesis unfolding v by simp
qed

text \<open>
  Claim C10. With the vocabulary built by the vocabulary loop, every token index of a
  sample, padding included, is below \<open>vocab_size + 2\<close>, the number of rows of the
  embedding table: assigned indices are below \<open>vocab_size\<close>, UNKNOWN is \<open>vocab_size\<close> and
  PAD is \<open>vocab_size + 1\<close>.
\<close>

theorem emitted_token_indices_in_embedding_range:
  assumes built: "build_train_vocab df_trn intersection_idx = Inr (train_vocab, term_freq)"
    and ds: "ds = IntersectionDataset df valid_idx train_vocab term_freq signals hist_len minf"
    and ok: "getitem ds index = Inr s"
  shows "(\<forall>t \<in> set (tokens_np s). t < embedding_rows (length train_vocab))
       \<and> length (tokens_np s) = nat (history_events_max ds)
       \<and> UNKNOWN_TOKEN_IDX ds = length train_vocab
       \<and> PAD_TOKEN_IDX ds = length train_vocab + 1
       \<and> (\<forall>tok i. map_of train_vocab tok = Some i \<longrightarrow> i < length train_vocab)"
proof -
  from build_train_vocab_inv [of df_trn intersection_idx] built
  have inv: "vocab_inv (train_vocab, term_freq)" by auto
  have u: "UNKNOWN_TOKEN_IDX ds = length train_vocab"
    and p: "PAD_TOKEN_IDX ds = length train_vocab + 1"
    and v: "vocab_term_2_idx ds = train_vocab"
    by (simp_all add: ds IntersectionDataset_def)
  have bound: "i < length train_vocab" if "map_of train_vocab tok = Some i" for tok i
    using vocab_inv_index_bound [OF inv that] .
  have res: "i \<le> length train_vocab" if "token_idx_of ds tok = Inr i" for tok i
    using that bound [of tok]
    by (auto simp: token_idx_of_def u v split: option.splits if_splits
          dest: less_imp_le)
  have "t < embedding_rows (length train_vocab)" if "t \<in> set (tokens_np s)" for t
  proof -
    from getitem_tokens [OF ok that] consider "t = PAD_TOKEN_IDX ds"
      | tok where "token_idx_of ds tok = Inr t" by blast
    then show ?thesis
    proof cases
      case 1
      then show ?thesis by (simp add: p embedding_rows_def)
    next
      case 2
      from res [OF this] show ?thesis by (simp add: embedding_rows_def)
    qed
  qed
  moreover have "length (tokens_np s) = nat (history_events_max ds)"
    using ok
    by (auto simp: getitem_def Let_def split: if_splits sum.splits prod.splits)
  ultimately show ?thesis using u p bound by blast
qed


theorem emitted_token_indices_in_embedding_range_witness:
  "\<exists>s. getitem synthetic_dataset 0 = Inr s
       \<and> tokens_np s = [0, 2, 0] @ replicate 97 3
       \<and> list_all (\<lambda>t. t < embedding_rows (length synthetic_vocab)) (tokens_np s)
       \<and> embedding_rows (length synthetic_vocab) = 4"
proof -
  note emitted_token_indices_in_embedding_range [OF synthetic_vocab_built synthetic_dataset_def synthetic_getitem]
  then show ?thesis
    by (intro exI [of _ "projr (getitem synthetic_dataset 0)"])
       (simp add: synthetic_getitem list_all_iff embedding_rows_def synthetic_vocab_def)
qed

lemma timestep_events_loop_returns:
  assumes "history_len_records ds \<noteq> 0" "\<forall>tok. \<exists>i. token_idx_of ds tok = Inr i"
  shows "\<exists>r. timestep_events_loop ds ts evs acc = Inr r"
proof (induction evs arbitrary: acc)
  case Nil
  show ?case by (cases acc) auto
next
  case (Cons ev evs)
  obtain tok ohe where ev: "ev = (tok, ohe)" by (cases ev)
  obtain toks ohes ws where acc: "acc = (toks, ohes, ws)" by (cases acc) auto
  from assms(2) obtain i where "token_idx_of ds tok = Inr i" by blast
  then show ?case using assms(1) Cons.IH by (simp add: ev acc)
qed

lemma raw_inputs_hist_loop_returns:
  assumes "history_len_records ds \<noteq> 0" "\<forall>tok. \<exists>i. token_idx_of ds tok = Inr i"
  shows "\<exists>r. raw_inputs_hist_loop ds ts frames acc = Inr r"
proof (induction frames arbitrary: ts acc)
  case Nil
  show ?case by (cases acc) auto
next
  case (Cons frame frames)
  from timestep_events_loop_returns [OF assms, of ts frame acc] obtain r where
    "timestep_events_loop ds ts frame acc = Inr r" by blast
  then show ?case using Cons.IH by simp
qed

lemma length_concat_bound:
  assumes "\<forall>j \<in> set js. length (g j) \<le> m"
  shows "length (concat (map g js)) \<le> length js * m"
  using assms by (induction js) (simp_all add: add_mono)

lemma max_events_bound:
  "r \<in> set df \<Longrightarrow> length (rnn_inputs_raw r) \<le> max_events_per_timestamp df"
  unfolding max_events_per_timestamp_def by (induction df) auto

lemma getitem_returns:
  assumes ds: "ds = IntersectionDataset df valid_idx train_vocab term_freq signals
                      HIST_LEN_FRAMES minf"
    and idx: "index < length valid_idx"
    and row: "row_i = valid_idx ! index" "row_i < length df"
    and h0: "0 \<le> valid_hist_len (df ! row_i)"
    and h1: "valid_hist_len (df ! row_i) \<le> int row_i"
    and h2: "valid_hist_len (df ! row_i) < HIST_LEN_FRAMES"
    and freq: "\<forall>tok. map_of train_vocab tok \<noteq> None \<longrightarrow> map_of term_freq tok \<noteq> None"
    and tok: "\<exists>j. row_i - nat (valid_hist_len (df ! row_i)) \<le> j \<and> j \<le> row_i
                  \<and> rnn_inputs_raw (df ! j) \<noteq> []"
    and ohe: "\<forall>r \<in> set df. \<forall>ev \<in> set (rnn_inputs_raw r). length (snd ev) = 4"
  shows "\<exists>s. getitem ds index = Inr s"
proof -
  let ?g = "\<lambda>j. rnn_inputs_raw (df ! j)"
  let ?v = "valid_hist_len (df ! row_i)"
  let ?a = "row_i - nat ?v"
  let ?n = "nat ?v + 1"
  have f: "tl_events_df ds = df" "valid_indices ds = valid_idx"
      "history_len_records ds = 100"
      "history_events_max ds = 100 * int (max_events_per_timestamp df)"
      "vocab_term_2_idx ds = train_vocab" "vocab_term_2_freq ds = term_freq"
    by (simp_all add: ds IntersectionDataset_def HIST_LEN_FRAMES_def)
  have res: "\<forall>tok. \<exists>i. token_idx_of ds tok = Inr i"
  proof
    fix tok
    show "\<exists>i. token_idx_of ds tok = Inr i"
    proof (cases "map_of train_vocab tok")
      case None
      then show ?thesis by (simp add: token_idx_of_def f)
    next
      case (Some i)
      with freq obtain c where "map_of term_freq tok = Some c" by fastforce
      with Some show ?thesis by (simp add: token_idx_of_def f)
    qed
  qed
  have nz: "history_len_records ds \<noteq> 0" by (simp add: f)
  have il: "iloc df (int row_i) = Inr (df ! row_i)" using row(2) by (simp add: iloc_def)
  have m: "min 100 ?v = ?v" using h2 by (simp add: HIST_LEN_FRAMES_def)
  have e: "?a + ?n = Suc row_i" using h0 h1 by linarith
  have sl: "iloc_slice (map rnn_inputs_raw df) (int row_i - ?v) (int row_i + 1)
              = map ?g [?a..<?a + ?n]"
    unfolding e using iloc_slice_window [of row_i "map rnn_inputs_raw df" ?v] row(2) h0 h1
    by simp
  have ts: "?v + 1 = int ?n" using h0 by simp
  from raw_inputs_hist_loop_returns [OF nz res, of "int ?n" "map ?g [?a..<?a + ?n]" "([], [], [])"]
  obtain toks ohes ws where
    loop: "raw_inputs_hist_loop ds (int ?n) (map ?g [?a..<?a + ?n]) ([], [], [])
             = Inr (toks, ohes, ws)"
    by (metis prod_cases3)
  from raw_inputs_hist_loop_range [OF loop] have
    t: "map Inr toks = map (\<lambda>e. token_idx_of ds (fst e)) (concat (map ?g [?a..<?a + ?n]))"
    and o: "ohes = map snd (concat (map ?g [?a..<?a + ?n]))"
    by auto
  have lt: "length toks = length (concat (map ?g [?a..<?a + ?n]))"
    using map_eq_imp_length_eq [OF t] .
  have "\<forall>j \<in> set [?a..<?a + ?n]. length (?g j) \<le> max_events_per_timestamp df"
    using row(2) unfolding e by (auto intro!: max_events_bound)
  from length_concat_bound [OF this] have
    "length toks \<le> ?n * max_events_per_timestamp df" by (simp add: lt)
  moreover have "?n \<le> 100" using h2 by (simp add: HIST_LEN_FRAMES_def)
  ultimately have "length toks \<le> 100 * max_events_per_timestamp df"
    by (meson le_trans mult_le_mono1)
  then have pad: "\<not> 100 * int (max_events_per_timestamp df) - int (length toks) < 0"
    by linarith
  from tok obtain j where j: "?a \<le> j" "j \<le> row_i" "?g j \<noteq> []" by blast
  then have "j \<in> set [?a..<Suc row_i]" by auto
  with j(3) have "concat (map ?g [?a..<?a + ?n]) \<noteq> []" unfolding e
    by (simp del: upt_Suc set_upt) blast
  then have ne: "ohes \<noteq> []" by (simp add: o)
  have "\<forall>v \<in> set ohes. length v = 4"
    using ohe row(2) unfolding o e by fastforce
  then have l4: "\<not> list_ex (\<lambda>v. length v \<noteq> 4) ohes" by (simp add: list_ex_iff)
  show ?thesis
    unfolding getitem_def Let_def f row(1) [symmetric] il sum.case m sl ts loop
    using idx pad ne l4 by simp
qed

lemma getitem_window_shape:
  assumes ok: "getitem (IntersectionDataset df valid_idx train_vocab term_freq signals
                          HIST_LEN_FRAMES minf) index = Inr s"
    and row: "row_i = valid_idx ! index"
    and hist: "h = nat (min HIST_LEN_FRAMES (valid_hist_len (df ! row_i)))"
    and h0: "0 \<le> valid_hist_len (df ! row_i)"
    and h1: "valid_hist_len (df ! row_i) \<le> int row_i"
    and cap: "capacity = 100 * max_events_per_timestamp df"
  shows "seq_len s = length (concat (map (\<lambda>j. rnn_inputs_raw (df ! j)) [row_i - h..<Suc row_i]))
       \<and> seq_len s \<le> capacity
       \<and> token_timesteps_np s =
            concat (map (\<lambda>j. replicate (length (rnn_inputs_raw (df ! j)))
                                ((real (row_i - j) + 1) / 100))
                      [row_i - h..<Suc row_i])
            @ replicate (capacity - seq_len s) 0
       \<and> token_type_ohe_np s =
            map snd (concat (map (\<lambda>j. rnn_inputs_raw (df ! j)) [row_i - h..<Suc row_i]))
            @ replicate (capacity - seq_len s) [0, 0, 0, 0]
       \<and> tokens_np s =
            take (seq_len s) (tokens_np s)
            @ replicate (capacity - seq_len s) (length train_vocab + 1)
       \<and> length (tokens_np s) = capacity
       \<and> length (token_type_ohe_np s) = capacity
       \<and> length (token_timesteps_np s) = capacity"
proof -
  let ?ds = "IntersectionDataset df valid_idx train_vocab term_freq signals HIST_LEN_FRAMES minf"
  let ?h = "min (history_len_records ?ds) (valid_hist_len (tl_events_df ?ds ! row_i))"
  have f: "tl_events_df ?ds = df" "valid_indices ?ds = valid_idx"
      "history_len_records ?ds = 100" "PAD_TOKEN_IDX ?ds = length train_vocab + 1"
      "history_events_max ?ds = int capacity"
    by (simp_all add: IntersectionDataset_def HIST_LEN_FRAMES_def cap)
  have hh: "?h = int h" "0 \<le> ?h" "?h \<le> int row_i" "nat ?h = h"
    using h0 h1 unfolding f hist by (auto simp: HIST_LEN_FRAMES_def)
  have r: "row_i = valid_indices ?ds ! index" by (simp add: f row)
  have hh4: "nat (min 100 (valid_hist_len (df ! row_i))) = h"
    by (simp add: hist HIST_LEN_FRAMES_def)
  from getitem_Inr [OF ok r refl hh(2,3), unfolded f hh4]
  obtain new pad where
    g: "int pad = int capacity - int (length new)"
       "seq_len s = length new"
       "tokens_np s = new @ replicate pad (length train_vocab + 1)"
       "map Inr new = map (\<lambda>e. token_idx_of ?ds (fst e))
               (concat (map (\<lambda>j. rnn_inputs_raw (df ! j)) [row_i - h..<Suc row_i]))"
       "token_type_ohe_np s =
          map snd (concat (map (\<lambda>j. rnn_inputs_raw (df ! j)) [row_i - h..<Suc row_i]))
          @ replicate pad [0, 0, 0, 0]"
       "token_timesteps_np s =
          concat (map (\<lambda>j. replicate (length (rnn_inputs_raw (df ! j)))
                              (real (Suc row_i - j) / real_of_int 100))
                    [row_i - h..<Suc row_i])
          @ replicate pad 0"
    by blast
  have l: "length new = length (concat (map (\<lambda>j. rnn_inputs_raw (df ! j))
                                          [row_i - h..<Suc row_i]))"
    using map_eq_imp_length_eq [OF g(4)] .
  have p: "pad = capacity - length new" "length new \<le> capacity"
    using g(1) by linarith+
  have w: "map (\<lambda>j. replicate (length (rnn_inputs_raw (df ! j)))
                              (real (Suc row_i - j) / real_of_int 100))
             [row_i - h..<Suc row_i]
         = map (\<lambda>j. replicate (length (rnn_inputs_raw (df ! j)))
                                ((real (row_i - j) + 1) / 100))
             [row_i - h..<Suc row_i]"
    by (rule map_cong) (auto simp: Suc_diff_le)
  have lw: "length (concat (map (\<lambda>j. replicate (length (rnn_inputs_raw (df ! j)))
                                ((real (row_i - j) + 1) / 100 :: real))
             [row_i - h..<Suc row_i])) = length new"
    unfolding l by (simp add: length_concat comp_def)
  show ?thesis
    using p l lw unfolding g(2) g(3) g(5) g(6) w
    by (simp add: length_concat)
qed



lemma ordering_table_eq:
  "ordering_table =
     [\<lparr> timestamp = 0, master_intersection_idx = 0,
        rnn_inputs_raw = [(''ped_wait'', [0, 0, 1, 0])],
        tl_signal_classes = [], time_to_tl_change = [],
        continuous_time = False, valid_hist_len = - 1 \<rparr>,
      \<lparr> timestamp = 100000000, master_intersection_idx = 0,
        rnn_inputs_raw = [(''car_in'', [1, 0, 0, 0]), (''car_stop'', [0, 1, 0, 0])],
        tl_signal_classes = [], time_to_tl_change = [],
        continuous_time = True, valid_hist_len = - 1 \<rparr>,
      \<lparr> timestamp = 200000000, master_intersection_idx = 0,
        rnn_inputs_raw = [(''car_out'', [0, 0, 0, 1])],
        tl_signal_classes = [(7, 0)], time_to_tl_change = [(7, 4)],
        continuous_time = True, valid_hist_len = - 1 \<rparr>]"
  by (simp add: ordering_table_def ordering_rows_def add_continuous_time_def
        continuous_time_column_def)

lemma ordering_vocab_built:
  "build_train_vocab ordering_table 0 = Inr (ordering_vocab, ordering_freq)"
  by (simp add: build_train_vocab_def ordering_table_eq ordering_vocab_def ordering_freq_def)

lemma ordering_prepared_computed:
  "compute_last_valid_idx_for_seq ordering_table = Inr ordering_prepared"
  by (simp add: compute_last_valid_idx_for_seq_def ordering_table_eq ordering_prepared_def
        valid_hist_len_of_row_def last_valid_idx_loop.simps iloc_def HIST_LEN_FRAMES_def
        upt_rec numeral_3_eq_3)

lemma getitem_window_tokens:
  assumes ok: "getitem (IntersectionDataset df valid_idx train_vocab term_freq signals
                          HIST_LEN_FRAMES minf) index = Inr s"
    and row: "row_i = valid_idx ! index"
    and hist: "h = nat (min HIST_LEN_FRAMES (valid_hist_len (df ! row_i)))"
    and h0: "0 \<le> valid_hist_len (df ! row_i)"
    and h1: "valid_hist_len (df ! row_i) \<le> int row_i"
  shows "map Inr (take (seq_len s) (tokens_np s))
           = map (\<lambda>ev. token_idx_of (IntersectionDataset df valid_idx train_vocab term_freq
                                       signals HIST_LEN_FRAMES minf) (fst ev))
               (concat (map (\<lambda>j. rnn_inputs_raw (df ! j)) [row_i - h..<Suc row_i]))"
proof -
  let ?ds = "IntersectionDataset df valid_idx train_vocab term_freq signals HIST_LEN_FRAMES minf"
  let ?h = "min (history_len_records ?ds) (valid_hist_len (tl_events_df ?ds ! row_i))"
  have f: "tl_events_df ?ds = df" "valid_indices ?ds = valid_idx"
      "history_len_records ?ds = 100"
    by (simp_all add: IntersectionDataset_def HIST_LEN_FRAMES_def)
  have hh: "0 \<le> ?h" "?h \<le> int row_i"
    using h0 h1 unfolding f by auto
  have r: "row_i = valid_indices ?ds ! index" by (simp add: f row)
  have hh4: "nat (min 100 (valid_hist_len (df ! row_i))) = h"
    by (simp add: hist HIST_LEN_FRAMES_def)
  from getitem_Inr [OF ok r refl hh, unfolded f hh4]
  obtain new pad where
    g: "seq_len s = length new"
       "tokens_np s = new @ replicate pad (PAD_TOKEN_IDX ?ds)"
       "map Inr new = map (\<lambda>e. token_idx_of ?ds (fst e))
               (concat (map (\<lambda>j. rnn_inputs_raw (df ! j)) [row_i - h..<Suc row_i]))"
    by blast
  show ?thesis unfolding g(1) g(2) using g(3) by simp
qed

lemma take_exact_prefix: "length xs = n \<Longrightarrow> take n (xs @ ys) = xs"
  by simp

lemma zip_frame_block:
  "zip (map f xs) (zip (map k xs) (replicate (length xs) c)) = map (\<lambda>ev. (f ev, k ev, c)) xs"
  by (induction xs) simp_all

lemma zip_concat_blocks:
  "zip (map f (concat (map g js)))
       (zip (map k (concat (map g js)))
            (concat (map (\<lambda>j. replicate (length (g j)) (w j)) js)))
     = concat (map (\<lambda>j. map (\<lambda>ev. (f ev, k ev, w j)) (g j)) js)"
proof (induction js)
  case Nil
  show ?case by simp
next
  case (Cons j js)
  have "zip (map f (g j) @ map f (concat (map g js)))
            (zip (map k (g j) @ map k (concat (map g js)))
                 (replicate (length (g j)) (w j)
                    @ concat (map (\<lambda>j. replicate (length (g j)) (w j)) js)))
          = zip (map f (g j)) (zip (map k (g j)) (replicate (length (g j)) (w j)))
            @ zip (map f (concat (map g js)))
                (zip (map k (concat (map g js)))
                     (concat (map (\<lambda>j. replicate (length (g j)) (w j)) js)))"
    by (simp add: zip_append)
  then show ?case by (simp add: Cons.IH zip_frame_block)
qed

lemma getitem_window_sequences:
  assumes ok: "getitem (IntersectionDataset df valid_idx train_vocab term_freq signals
                          HIST_LEN_FRAMES minf) index = Inr s"
    and row: "row_i = valid_idx ! index"
    and hist: "h = nat (min HIST_LEN_FRAMES (valid_hist_len (df ! row_i)))"
    and h0: "0 \<le> valid_hist_len (df ! row_i)"
    and h1: "valid_hist_len (df ! row_i) \<le> int row_i"
    and cap: "capacity = 100 * max_events_per_timestamp df"
  shows "seq_len s = length (concat (map (\<lambda>j. rnn_inputs_raw (df ! j))
                                          [row_i - h..<Suc row_i]))
          \<and> seq_len s \<le> capacity
          \<and> token_timesteps_np s =
               concat (map (\<lambda>j. replicate (length (rnn_inputs_raw (df ! j)))
                                   ((real (row_i - j) + 1) / 100))
                         [row_i - h..<Suc row_i])
               @ replicate (capacity - seq_len s) 0
          \<and> token_type_ohe_np s =
               map snd (concat (map (\<lambda>j. rnn_inputs_raw (df ! j)) [row_i - h..<Suc row_i]))
               @ replicate (capacity - seq_len s) [0, 0, 0, 0]
          \<and> tokens_np s =
               take (seq_len s) (tokens_np s)
               @ replicate (capacity - seq_len s) (length train_vocab + 1)
          \<and> length (tokens_np s) = capacity
          \<and> length (token_type_ohe_np s) = capacity
          \<and> length (token_timesteps_np s) = capacity
          \<and> map Inr (take (seq_len s) (tokens_np s)) =
               map (\<lambda>ev. token_idx_of (IntersectionDataset df valid_idx train_vocab
                                         term_freq signals HIST_LEN_FRAMES minf) (fst ev))
                 (concat (map (\<lambda>j. rnn_inputs_raw (df ! j)) [row_i - h..<Suc row_i]))
          \<and> zip (map Inr (take (seq_len s) (tokens_np s)))
                 (zip (take (seq_len s) (token_type_ohe_np s))
                      (take (seq_len s) (token_timesteps_np s))) =
               concat (map (\<lambda>j. map (\<lambda>ev. (token_idx_of (IntersectionDataset df valid_idx train_vocab
                                         term_freq signals HIST_LEN_FRAMES minf) (fst ev), snd ev,
                                              (real (row_i - j) + 1) / 100))
                                   (rnn_inputs_raw (df ! j)))
                         [row_i - h..<Suc row_i])"
proof -
  let ?ds = "IntersectionDataset df valid_idx train_vocab term_freq signals HIST_LEN_FRAMES minf"
  let ?g = "\<lambda>j. rnn_inputs_raw (df ! j)"
  let ?js = "[row_i - h..<Suc row_i]"
  let ?w = "\<lambda>j. (real (row_i - j) + 1) / 100"
  note shape = getitem_window_shape [OF ok row hist h0 h1 cap]
  note toks = getitem_window_tokens [OF ok row hist h0 h1]
  from shape have len: "seq_len s = length (concat (map ?g ?js))" by blast
  from shape have o: "token_type_ohe_np s =
      map snd (concat (map ?g ?js)) @ replicate (capacity - seq_len s) [0, 0, 0, 0]" by blast
  from shape have t: "token_timesteps_np s =
      concat (map (\<lambda>j. replicate (length (?g j)) (?w j)) ?js)
      @ replicate (capacity - seq_len s) 0" by blast
  have lw: "length (concat (map (\<lambda>j. replicate (length (?g j)) (?w j)) ?js)) = seq_len s"
    unfolding len by (simp add: length_concat comp_def)
  have to: "take (seq_len s) (token_type_ohe_np s) = map snd (concat (map ?g ?js))"
    by (subst o) (rule take_exact_prefix, simp only: len length_map)
  have tt: "take (seq_len s) (token_timesteps_np s)
              = concat (map (\<lambda>j. replicate (length (?g j)) (?w j)) ?js)"
    by (subst t) (rule take_exact_prefix [OF lw])
  have z: "zip (map Inr (take (seq_len s) (tokens_np s)))
                 (zip (take (seq_len s) (token_type_ohe_np s))
                      (take (seq_len s) (token_timesteps_np s))) =
               concat (map (\<lambda>j. map (\<lambda>ev. (token_idx_of ?ds (fst ev), snd ev, ?w j)) (?g j)) ?js)"
    unfolding toks to tt by (rule zip_concat_blocks)
  from shape toks z show ?thesis by blast
qed

text \<open>
  Claim C2. Take a dataset built with the default maximum window length
  \<open>HIST_LEN_FRAMES = 100\<close> and a target row \<open>row_i\<close> whose valid history length lies
  between 0 and \<open>row_i\<close>. Every sample built for it has this form: the window is the
  frames \<open>row_i - h .. row_i\<close> in this order, where \<open>h\<close> is the valid history length cut at
  100; the first \<open>seq_len\<close> token indices are the resolved indices of the events of the
  window in this order; every token of the frame \<open>j\<close>, which is at distance \<open>row_i - j\<close>
  from the target row, gets the weight \<open>(row_i - j + 1) / 100\<close>, so that at every position
  before the padding the three sequences hold the index of an event, the type vector of
  the same event and the weight of its frame; and the three sequences are padded on the
  right to the capacity 100 times the largest number of events of a frame, with the PAD
  index \<open>vocab_size + 1\<close>, zero type vectors and zero weights. A sample is built (no
  exception) whenever the index and the row exist, the valid history length is below 100,
  every token with a vocabulary index has a recorded frequency, the window holds at least
  one token and every token type vector has 4 entries.
\<close>

theorem getitem_recency_weights_and_padding:
  assumes ds: "ds = IntersectionDataset df valid_idx train_vocab term_freq signals
                      HIST_LEN_FRAMES minf"
    and row: "row_i = valid_idx ! index"
    and hist: "h = nat (min HIST_LEN_FRAMES (valid_hist_len (df ! row_i)))"
    and h0: "0 \<le> valid_hist_len (df ! row_i)"
    and h1: "valid_hist_len (df ! row_i) \<le> int row_i"
    and cap: "capacity = 100 * max_events_per_timestamp df"
  shows "(\<forall>s. getitem ds index = Inr s \<longrightarrow>
            seq_len s = length (concat (map (\<lambda>j. rnn_inputs_raw (df ! j))
                                          [row_i - h..<Suc row_i]))
          \<and> seq_len s \<le> capacity
          \<and> token_timesteps_np s =
               concat (map (\<lambda>j. replicate (length (rnn_inputs_raw (df ! j)))
                                   ((real (row_i - j) + 1) / 100))
                         [row_i - h..<Suc row_i])
               @ replicate (capacity - seq_len s) 0
          \<and> token_type_ohe_np s =
               map snd (concat (map (\<lambda>j. rnn_inputs_raw (df ! j)) [row_i - h..<Suc row_i]))
               @ replicate (capacity - seq_len s) [0, 0, 0, 0]
          \<and> tokens_np s =
               take (seq_len s) (tokens_np s)
               @ replicate (capacity - seq_len s) (length train_vocab + 1)
          \<and> length (tokens_np s) = capacity
          \<and> length (token_type_ohe_np s) = capacity
          \<and> length (token_timesteps_np s) = capacity
          \<and> map Inr (take (seq_len s) (tokens_np s)) =
               map (\<lambda>ev. token_idx_of ds (fst ev))
                 (concat (map (\<lambda>j. rnn_inputs_raw (df ! j)) [row_i - h..<Suc row_i]))
          \<and> zip (map Inr (take (seq_len s) (tokens_np s)))
                 (zip (take (seq_len s) (token_type_ohe_np s))
                      (take (seq_len s) (token_timesteps_np s))) =
               concat (map (\<lambda>j. map (\<lambda>ev. (token_idx_of ds (fst ev), snd ev,
                                              (real (row_i - j) + 1) / 100))
                                   (rnn_inputs_raw (df ! j)))
                         [row_i - h..<Suc row_i]))
       \<and> (index < length valid_idx \<and> row_i < length df
            \<and> valid_hist_len (df ! row_i) < HIST_LEN_FRAMES
            \<and> (\<forall>tok. map_of train_vocab tok \<noteq> None \<longrightarrow> map_of term_freq tok \<noteq> None)
            \<and> (\<exists>j. row_i - h \<le> j \<and> j \<le> row_i \<and> rnn_inputs_raw (df ! j) \<noteq> [])
            \<and> (\<forall>r \<in> set df. \<forall>ev \<in> set (rnn_inputs_raw r). length (snd ev) = 4)
          \<longrightarrow> (\<exists>s. getitem ds index = Inr s))"
proof (rule conjI)
  show "\<forall>s. getitem ds index = Inr s \<longrightarrow>
            seq_len s = length (concat (map (\<lambda>j. rnn_inputs_raw (df ! j))
                                          [row_i - h..<Suc row_i]))
          \<and> seq_len s \<le> capacity
          \<and> token_timesteps_np s =
               concat (map (\<lambda>j. replicate (length (rnn_inputs_raw (df ! j)))
                                   ((real (row_i - j) + 1) / 100))
                         [row_i - h..<Suc row_i])
               @ replicate (capacity - seq_len s) 0
          \<and> token_type_ohe_np s =
               map snd (concat (map (\<lambda>j. rnn_inputs_raw (df ! j)) [row_i - h..<Suc row_i]))
               @ replicate (capacity - seq_len s) [0, 0, 0, 0]
          \<and> tokens_np s =
               take (seq_len s) (tokens_np s)
               @ replicate (capacity - seq_len s) (length train_vocab + 1)
          \<and> length (tokens_np s) = capacity
          \<and> length (token_type_ohe_np s) = capacity
          \<and> length (token_timesteps_np s) = capacity
          \<and> map Inr (take (seq_len s) (tokens_np s)) =
               map (\<lambda>ev. token_idx_of ds (fst ev))
                 (concat (map (\<lambda>j. rnn_inputs_raw (df ! j)) [row_i - h..<Suc row_i]))
          \<and> zip (map Inr (take (seq_len s) (tokens_np s)))
                 (zip (take (seq_len s) (token_type_ohe_np s))
                      (take (seq_len s) (token_timesteps_np s))) =
               concat (map (\<lambda>j. map (\<lambda>ev. (token_idx_of ds (fst ev), snd ev,
                                              (real (row_i - j) + 1) / 100))
                                   (rnn_inputs_raw (df ! j)))
                         [row_i - h..<Suc row_i])"
    unfolding ds
    by (intro allI impI) (rule getitem_window_sequences [OF _ row hist h0 h1 cap])
next
  show "index < length valid_idx \<and> row_i < length df
            \<and> valid_hist_len (df ! row_i) < HIST_LEN_FRAMES
            \<and> (\<forall>tok. map_of train_vocab tok \<noteq> None \<longrightarrow> map_of term_freq tok \<noteq> None)
            \<and> (\<exists>j. row_i - h \<le> j \<and> j \<le> row_i \<and> rnn_inputs_raw (df ! j) \<noteq> [])
            \<and> (\<forall>r \<in> set df. \<forall>ev \<in> set (rnn_inputs_raw r). length (snd ev) = 4)
          \<longrightarrow> (\<exists>s. getitem ds index = Inr s)"
  proof
    assume wf: "index < length valid_idx \<and> row_i < length df
            \<and> valid_hist_len (df ! row_i) < HIST_LEN_FRAMES
            \<and> (\<forall>tok. map_of train_vocab tok \<noteq> None \<longrightarrow> map_of term_freq tok \<noteq> None)
            \<and> (\<exists>j. row_i - h \<le> j \<and> j \<le> row_i \<and> rnn_inputs_raw (df ! j) \<noteq> [])
            \<and> (\<forall>r \<in> set df. \<forall>ev \<in> set (rnn_inputs_raw r). length (snd ev) = 4)"
    then have hh: "h = nat (valid_hist_len (df ! row_i))"
      by (simp add: hist)
    from wf show "\<exists>s. getitem ds index = Inr s"
      by (intro getitem_returns [OF ds _ row _ h0 h1]) (simp_all add: hh)
  qed
qed



theorem getitem_recency_weights_and_padding_witness:
  "\<exists>s. getitem ordering_dataset 0 = Inr s
       \<and> seq_len s = 4
       \<and> tokens_np s = [0, 1, 2, 3] @ replicate 196 5
       \<and> token_timesteps_np s = [3 / 100, 2 / 100, 2 / 100, 1 / 100] @ replicate 196 0
       \<and> token_type_ohe_np s =
           [[0, 0, 1, 0], [1, 0, 0, 0], [0, 1, 0, 0], [0, 0, 0, 1]] @ replicate 196 [0, 0, 0, 0]
       \<and> zip (map (Inr :: nat \<Rightarrow> py_error + nat) (take 4 (tokens_np s)))
              (zip (take 4 (token_type_ohe_np s)) (take 4 (token_timesteps_np s))) =
           [(Inr 0, [0, 0, 1, 0], 3 / 100), (Inr 1, [1, 0, 0, 0], 2 / 100),
            (Inr 2, [0, 1, 0, 0], 2 / 100), (Inr 3, [0, 0, 0, 1], 1 / 100)]"
proof -
  have p: "ordering_prepared =
     [\<lparr> timestamp = 0, master_intersection_idx = 0,
        rnn_inputs_raw = [(''ped_wait'', [0, 0, 1, 0])],
        tl_signal_classes = [], time_to_tl_change = [],
        continuous_time = False, valid_hist_len = 0 \<rparr>,
      \<lparr> timestamp = 100000000, master_intersection_idx = 0,
        rnn_inputs_raw = [(''car_in'', [1, 0, 0, 0]), (''car_stop'', [0, 1, 0, 0])],
        tl_signal_classes = [], time_to_tl_change = [],
        continuous_time = True, valid_hist_len = 1 \<rparr>,
      \<lparr> timestamp = 200000000, master_intersection_idx = 0,
        rnn_inputs_raw = [(''car_out'', [0, 0, 0, 1])],
        tl_signal_classes = [(7, 0)], time_to_tl_change = [(7, 4)],
        continuous_time = True, valid_hist_len = 2 \<rparr>]"
    by (simp add: ordering_prepared_def ordering_table_eq)
  have v: "valid_hist_len (ordering_prepared ! 2) = 2" by (simp add: p)
  have r: "2 = [2::nat] ! 0" by simp
  have h: "2 = nat (min HIST_LEN_FRAMES (valid_hist_len (ordering_prepared ! 2)))"
    by (simp add: v HIST_LEN_FRAMES_def)
  have c: "200 = 100 * max_events_per_timestamp ordering_prepared"
    by (simp add: p max_events_per_timestamp_def)
  have h0: "0 \<le> valid_hist_len (ordering_prepared ! 2)"
    and h1: "valid_hist_len (ordering_prepared ! 2) \<le> int 2"
    by (simp_all add: v)
  note t = getitem_recency_weights_and_padding [OF ordering_dataset_def r h h0 h1 c]
  have wf: "0 < length [2::nat] \<and> 2 < length ordering_prepared
            \<and> valid_hist_len (ordering_prepared ! 2) < HIST_LEN_FRAMES
            \<and> (\<forall>tok. map_of ordering_vocab tok \<noteq> None \<longrightarrow> map_of ordering_freq tok \<noteq> None)
            \<and> (\<exists>j. 2 - 2 \<le> j \<and> j \<le> 2 \<and> rnn_inputs_raw (ordering_prepared ! j) \<noteq> [])
            \<and> (\<forall>r \<in> set ordering_prepared. \<forall>ev \<in> set (rnn_inputs_raw r). length (snd ev) = 4)"
    by (auto simp: p HIST_LEN_FRAMES_def ordering_vocab_def ordering_freq_def
          intro: exI [of _ 2])
  from t [THEN conjunct2, rule_format, OF wf] obtain s where
    s: "getitem ordering_dataset 0 = Inr s" by blast
  note q = t [THEN conjunct1, rule_format, OF s]
  have win: "[2 - 2..<Suc 2] = [0, 1, 2]" by (simp add: upt_rec)
  have tok: "token_idx_of ordering_dataset ''ped_wait'' = Inr 0"
       "token_idx_of ordering_dataset ''car_in'' = Inr 1"
       "token_idx_of ordering_dataset ''car_stop'' = Inr 2"
       "token_idx_of ordering_dataset ''car_out'' = Inr 3"
    by (simp_all add: token_idx_of_def ordering_dataset_def IntersectionDataset_def
          ordering_vocab_def ordering_freq_def)
  have voc: "length ordering_vocab + 1 = 5" by (simp add: ordering_vocab_def)
  from q have sl: "seq_len s = 4" unfolding win by (simp add: p)
  from q have ts: "token_timesteps_np s
                     = [3 / 100, 2 / 100, 2 / 100, 1 / 100] @ replicate 196 0"
    unfolding win sl by (simp add: p)
  from q have oh: "token_type_ohe_np s =
           [[0, 0, 1, 0], [1, 0, 0, 0], [0, 1, 0, 0], [0, 0, 0, 1]] @ replicate 196 [0, 0, 0, 0]"
    unfolding win sl by (simp add: p)
  from q have "map (Inr :: nat \<Rightarrow> py_error + nat) (take 4 (tokens_np s)) = map Inr [0, 1, 2, 3]"
    unfolding win sl by (simp add: p tok)
  then have tk: "take 4 (tokens_np s) = [0, 1, 2, 3]"
    by (simp only: inj_map_eq_map [OF inj_Inr])
  from q have "tokens_np s = take 4 (tokens_np s) @ replicate (200 - 4) 5"
    unfolding sl voc by blast
  then have tn: "tokens_np s = [0, 1, 2, 3] @ replicate 196 5"
    unfolding tk by simp
  from q have z: "zip (map (Inr :: nat \<Rightarrow> py_error + nat) (take 4 (tokens_np s)))
              (zip (take 4 (token_type_ohe_np s)) (take 4 (token_timesteps_np s))) =
           [(Inr 0, [0, 0, 1, 0], 3 / 100), (Inr 1, [1, 0, 0, 0], 2 / 100),
            (Inr 2, [0, 1, 0, 0], 2 / 100), (Inr 3, [0, 0, 0, 1], 1 / 100)]"
    unfolding win sl by (simp add: p tok)
  from s sl tn ts oh z show ?thesis by blast
qed

section \<open>Properties of the valid-window selection\<close>

lemma decode_encode_len_continuity:
  "decode_len_continuity (encode_len_continuity n c) = (n \<ge> 1, c)"
  by (simp add: decode_len_continuity_def encode_len_continuity_def is_non_empty_bit_def
        is_time_continuous_bit_def)

lemma scan_from_end_encoded:
  "scan_from_end (map (\<lambda>r. encode_len_continuity (length (rnn_inputs_raw r))
                               (continuous_time r)) rs)
     = (if list_ex (\<lambda>r. rnn_inputs_raw r \<noteq> []) (takeWhile continuous_time rs) then 1 else 0)"
proof (induction rs)
  case Nil
  show ?case by simp
next
  case (Cons r rs)
  have "(1 \<le> length (rnn_inputs_raw r)) = (rnn_inputs_raw r \<noteq> [])"
    by (cases "rnn_inputs_raw r") simp_all
  with Cons show ?case by (simp add: decode_encode_len_continuity)
qed

lemma indices_of_mask: "map fst (filter snd (zip xs (map P xs))) = filter P xs"
  by (induction xs) simp_all

lemma get_valid_indices_filter:
  assumes "0 < hist_len"
  shows "get_valid_indices df hist_len is_inference =
     Inr (filter (\<lambda>i. (tl_signal_classes (df ! i) \<noteq> [] \<or> is_inference)
                    \<and> list_ex (\<lambda>r. rnn_inputs_raw r \<noteq> [])
                         (takeWhile continuous_time
                            (rev (drop (Suc i - (hist_len - 1)) (take (Suc i) df)))))
            [0..<length df])"
proof -
  let ?enc = "\<lambda>r. encode_len_continuity (length (rnn_inputs_raw r)) (continuous_time r)"
  let ?P = "\<lambda>i. (tl_signal_classes (df ! i) \<noteq> [] \<or> is_inference)
                    \<and> list_ex (\<lambda>r. rnn_inputs_raw r \<noteq> [])
                         (takeWhile continuous_time
                            (rev (drop (Suc i - (hist_len - 1)) (take (Suc i) df))))"
  have win: "is_nonempty_input_present (drop a (take b (map ?enc df)))
               = (if list_ex (\<lambda>r. rnn_inputs_raw r \<noteq> [])
                       (takeWhile continuous_time (rev (drop a (take b df)))) then 1 else 0)"
    for a b
    unfolding is_nonempty_input_present_def
    by (simp only: take_map drop_map rev_map scan_from_end_encoded)
  have "map2 (\<lambda>r present. (length (tl_signal_classes r) > 0 \<or> is_inference) \<and> present = 1)
          df (rolling_agg (hist_len - 1) is_nonempty_input_present (map ?enc df))
        = map ?P [0..<length df]"
    by (rule nth_equalityI) (auto simp: rolling_agg_def win)
  then show ?thesis using assms
    by (simp add: get_valid_indices_def Let_def indices_of_mask)
qed



lemma all_le_Suc_split: "(\<forall>q \<le> Suc k. P q) = (P 0 \<and> (\<forall>q \<le> k. P (Suc q)))"
proof
  assume a: "\<forall>q \<le> Suc k. P q"
  then show "P 0 \<and> (\<forall>q \<le> k. P (Suc q))" by simp
next
  assume a: "P 0 \<and> (\<forall>q \<le> k. P (Suc q))"
  show "\<forall>q \<le> Suc k. P q"
  proof (intro allI impI)
    fix q assume "q \<le> Suc k"
    with a show "P q" by (cases q) simp_all
  qed
qed

lemma list_ex_takeWhile_nth:
  "list_ex N (takeWhile C xs) = (\<exists>k < length xs. N (xs ! k) \<and> (\<forall>q \<le> k. C (xs ! q)))"
proof (induction xs)
  case Nil
  show ?case by simp
next
  case (Cons x xs)
  show ?case
  proof (cases "C x")
    case True
    have "(\<exists>k < length (x # xs). N ((x # xs) ! k) \<and> (\<forall>q \<le> k. C ((x # xs) ! q)))
            = (N x \<or> (\<exists>k < length xs. N (xs ! k) \<and> (\<forall>q \<le> k. C (xs ! q))))"
    proof
      assume "\<exists>k < length (x # xs). N ((x # xs) ! k) \<and> (\<forall>q \<le> k. C ((x # xs) ! q))"
      then obtain k where k: "k < length (x # xs)" "N ((x # xs) ! k)"
        "\<forall>q \<le> k. C ((x # xs) ! q)" by blast
      show "N x \<or> (\<exists>k < length xs. N (xs ! k) \<and> (\<forall>q \<le> k. C (xs ! q)))"
      proof (cases k)
        case 0
        with k(2) show ?thesis by simp
      next
        case (Suc j)
        with k have "j < length xs" "N (xs ! j)" "\<forall>q \<le> j. C (xs ! q)"
          by (simp_all add: all_le_Suc_split)
        then show ?thesis by blast
      qed
    next
      assume "N x \<or> (\<exists>k < length xs. N (xs ! k) \<and> (\<forall>q \<le> k. C (xs ! q)))"
      then show "\<exists>k < length (x # xs). N ((x # xs) ! k) \<and> (\<forall>q \<le> k. C ((x # xs) ! q))"
      proof
        assume "N x"
        with True show ?thesis by (intro exI [of _ 0]) simp
      next
        assume "\<exists>k < length xs. N (xs ! k) \<and> (\<forall>q \<le> k. C (xs ! q))"
        then obtain j where "j < length xs" "N (xs ! j)" "\<forall>q \<le> j. C (xs ! q)" by blast
        with True show ?thesis
          by (intro exI [of _ "Suc j"]) (simp add: all_le_Suc_split)
      qed
    qed
    with Cons True show ?thesis by simp
  next
    case False
    then have "\<not> (\<exists>k < length (x # xs). N ((x # xs) ! k) \<and> (\<forall>q \<le> k. C ((x # xs) ! q)))"
      by (metis le0 nth_Cons_0)
    with False show ?thesis by simp
  qed
qed

lemma window_scan_iff:
  assumes "i < length df"
  shows "list_ex N (takeWhile C (rev (drop (Suc i - w) (take (Suc i) df))))
           = (\<exists>p \<le> i. i - p < w \<and> N (df ! p) \<and> (\<forall>q. p \<le> q \<and> q \<le> i \<longrightarrow> C (df ! q)))"
proof -
  let ?xs = "rev (drop (Suc i - w) (take (Suc i) df))"
  have len: "length ?xs = min (Suc i) w" using assms by auto
  have nth: "?xs ! k = df ! (i - k)" if "k < min (Suc i) w" for k
  proof -
    have "?xs ! k = drop (Suc i - w) (take (Suc i) df) ! (min (Suc i) w - Suc k)"
      using that len by (simp add: rev_nth)
    also have "\<dots> = df ! (Suc i - w + (min (Suc i) w - Suc k))"
      using that assms by simp
    also have "Suc i - w + (min (Suc i) w - Suc k) = i - k" using that by auto
    finally show ?thesis .
  qed
  show ?thesis
  proof
    assume "list_ex N (takeWhile C ?xs)"
    then obtain k where k: "k < min (Suc i) w" "N (?xs ! k)" "\<forall>q \<le> k. C (?xs ! q)"
      unfolding list_ex_takeWhile_nth len by blast
    have "C (df ! q)" if "i - k \<le> q" "q \<le> i" for q
    proof -
      have "i - q \<le> k" using that by linarith
      with k(3) have "C (?xs ! (i - q))" by blast
      moreover have "i - q < min (Suc i) w" using \<open>i - q \<le> k\<close> k(1) by linarith
      ultimately show ?thesis using nth [of "i - q"] that by simp
    qed
    moreover have "i - (i - k) < w" "i - k \<le> i" using k(1) by auto
    moreover have "N (df ! (i - k))" using k(1,2) nth by simp
    ultimately show "\<exists>p \<le> i. i - p < w \<and> N (df ! p) \<and> (\<forall>q. p \<le> q \<and> q \<le> i \<longrightarrow> C (df ! q))"
      by blast
  next
    assume "\<exists>p \<le> i. i - p < w \<and> N (df ! p) \<and> (\<forall>q. p \<le> q \<and> q \<le> i \<longrightarrow> C (df ! q))"
    then obtain p where p: "p \<le> i" "i - p < w" "N (df ! p)"
      "\<forall>q. p \<le> q \<and> q \<le> i \<longrightarrow> C (df ! q)" by blast
    have k: "i - p < min (Suc i) w" using p(1,2) by auto
    have "N (?xs ! (i - p))" using nth [OF k] p(1,3) by simp
    moreover have "C (?xs ! q)" if "q \<le> i - p" for q
    proof -
      have "q < min (Suc i) w" using that k by linarith
      moreover have "p \<le> i - q" "i - q \<le> i" using that p(1) by auto
      ultimately show ?thesis using nth [of q] p(4) by simp
    qed
    ultimately show "list_ex N (takeWhile C ?xs)"
      unfolding list_ex_takeWhile_nth len using k by blast
  qed
qed


lemma synthetic_valid_indices:
  "get_valid_indices synthetic_prepared (nat HIST_LEN_FRAMES) False = Inr [2]"
  by (simp add: get_valid_indices_filter HIST_LEN_FRAMES_def synthetic_prepared_def
        synthetic_table_eq upt_rec numeral_3_eq_3)

text \<open>
  Claim C3, as stated, lets a row count as valid when the row with a token is found at
  the same position as a row whose continuity flag is false. The scan tests continuity
  first: on the table of one row, which has a token and a label and, being a first row, a
  false continuity flag, no row is selected.
\<close>

theorem valid_window_same_row_counterexample:
  "rnn_inputs_raw (single_row_table ! 0) \<noteq> []
   \<and> \<not> continuous_time (single_row_table ! 0)
   \<and> tl_signal_classes (single_row_table ! 0) \<noteq> []
   \<and> get_valid_indices single_row_table (nat HIST_LEN_FRAMES) False = Inr []"
  by (simp add: get_valid_indices_filter HIST_LEN_FRAMES_def single_row_table_def
        add_continuous_time_def continuous_time_column_def)

text \<open>
  Claim C3, amended. With a positive maximum history length, a row \<open>i\<close> is selected
  exactly when (1) among the last \<open>max history length - 1\<close> rows up to \<open>i\<close> there is a row
  \<open>p\<close> with at least one token such that every row from \<open>p\<close> to \<open>i\<close>, the row \<open>p\<close> included,
  has a true continuity flag (scanning backward, a row with a token is met strictly before
  any row whose flag is false; a row whose own flag is false ends the scan with 0 even
  when it has tokens), and (2) the row has a labeled signal or the selector runs in
  inference mode. The indices come out in increasing order. For the three-row table the
  derived columns are computed, exactly the third row (index 2) is selected for training,
  and its sample has 3 tokens before padding.
\<close>

theorem get_valid_indices_valid_window:
  assumes "0 < hist_len"
  shows "(\<exists>idx. get_valid_indices df hist_len is_inference = Inr idx
           \<and> sorted idx \<and> distinct idx
           \<and> (\<forall>i. i \<in> set idx \<longleftrightarrow>
                  i < length df
                \<and> (tl_signal_classes (df ! i) \<noteq> [] \<or> is_inference)
                \<and> (\<exists>p \<le> i. i - p < hist_len - 1 \<and> rnn_inputs_raw (df ! p) \<noteq> []
                       \<and> (\<forall>q. p \<le> q \<and> q \<le> i \<longrightarrow> continuous_time (df ! q)))))
       \<and> compute_last_valid_idx_for_seq (add_continuous_time synthetic_rows)
           = Inr synthetic_prepared
       \<and> get_valid_indices synthetic_prepared (nat HIST_LEN_FRAMES) False = Inr [2]
       \<and> (\<exists>s. getitem (IntersectionDataset synthetic_prepared [2] synthetic_vocab
                          synthetic_freq [7] HIST_LEN_FRAMES 2) 0 = Inr s
              \<and> seq_len s = 3)"
proof -
  let ?W = "\<lambda>i. list_ex (\<lambda>r. rnn_inputs_raw r \<noteq> [])
                         (takeWhile continuous_time
                            (rev (drop (Suc i - (hist_len - 1)) (take (Suc i) df))))"
  let ?idx = "filter (\<lambda>i. (tl_signal_classes (df ! i) \<noteq> [] \<or> is_inference) \<and> ?W i)
                [0..<length df]"
  have r: "get_valid_indices df hist_len is_inference = Inr ?idx"
    using get_valid_indices_filter [OF assms] .
  have m: "i \<in> set ?idx \<longleftrightarrow>
                  i < length df
                \<and> (tl_signal_classes (df ! i) \<noteq> [] \<or> is_inference)
                \<and> (\<exists>p \<le> i. i - p < hist_len - 1 \<and> rnn_inputs_raw (df ! p) \<noteq> []
                       \<and> (\<forall>q. p \<le> q \<and> q \<le> i \<longrightarrow> continuous_time (df ! q)))" for i
  proof (cases "i < length df")
    case True
    from window_scan_iff [OF True, of "\<lambda>r. rnn_inputs_raw r \<noteq> []" continuous_time "hist_len - 1"]
    show ?thesis using True by auto
  next
    case False
    then show ?thesis by simp
  qed
  have s: "sorted ?idx" "distinct ?idx" by (simp_all add: sorted_wrt_filter)
  have a: "\<exists>idx. get_valid_indices df hist_len is_inference = Inr idx
           \<and> sorted idx \<and> distinct idx
           \<and> (\<forall>i. i \<in> set idx \<longleftrightarrow>
                  i < length df
                \<and> (tl_signal_classes (df ! i) \<noteq> [] \<or> is_inference)
                \<and> (\<exists>p \<le> i. i - p < hist_len - 1 \<and> rnn_inputs_raw (df ! p) \<noteq> []
                       \<and> (\<forall>q. p \<le> q \<and> q \<le> i \<longrightarrow> continuous_time (df ! q))))"
    using r s m by (intro exI [of _ ?idx]) blast
  have b: "compute_last_valid_idx_for_seq (add_continuous_time synthetic_rows)
             = Inr synthetic_prepared"
    using synthetic_prepared_computed by (simp add: synthetic_table_def)
  have c: "\<exists>s. getitem (IntersectionDataset synthetic_prepared [2] synthetic_vocab
                          synthetic_freq [7] HIST_LEN_FRAMES 2) 0 = Inr s
              \<and> seq_len s = 3"
    using synthetic_getitem by (simp add: synthetic_dataset_def)
  show ?thesis using a b c synthetic_valid_indices by blast
qed

theorem get_valid_indices_valid_window_witness:
  "(0::nat) < 100
   \<and> (\<exists>idx. get_valid_indices synthetic_prepared 100 False = Inr idx \<and> idx = [2]
         \<and> (\<exists>p \<le> 2. 2 - p < 100 - 1 \<and> rnn_inputs_raw (synthetic_prepared ! p) \<noteq> []
                \<and> (\<forall>q. p \<le> q \<and> q \<le> 2 \<longrightarrow> continuous_time (synthetic_prepared ! q))))"
proof -
  have h: "(0::nat) < 100" by simp
  have e: "get_valid_indices synthetic_prepared 100 False = Inr [2]"
    using synthetic_valid_indices by (simp add: HIST_LEN_FRAMES_def)
  from get_valid_indices_valid_window [OF h, of synthetic_prepared False] obtain idx where
    i: "get_valid_indices synthetic_prepared 100 False = Inr idx"
       "\<forall>i. i \<in> set idx \<longleftrightarrow>
                  i < length synthetic_prepared
                \<and> (tl_signal_classes (synthetic_prepared ! i) \<noteq> [] \<or> False)
                \<and> (\<exists>p \<le> i. i - p < 100 - 1 \<and> rnn_inputs_raw (synthetic_prepared ! p) \<noteq> []
                       \<and> (\<forall>q. p \<le> q \<and> q \<le> i \<longrightarrow> continuous_time (synthetic_prepared ! q)))"
    by blast
  from i(1) e have "idx = [2]" by simp
  then have "2 \<in> set idx" by simp
  with i(2) have "\<exists>p \<le> 2. 2 - p < 100 - 1 \<and> rnn_inputs_raw (synthetic_prepared ! p) \<noteq> []
                \<and> (\<forall>q. p \<le> q \<and> q \<le> 2 \<longrightarrow> continuous_time (synthetic_prepared ! q))"
    by blast
  with h e show ?thesis by simp
qed

lemma ordering_valid_indices:
  "get_valid_indices ordering_prepared (nat HIST_LEN_FRAMES) False = Inr [2]"
  by (simp add: get_valid_indices_filter HIST_LEN_FRAMES_def ordering_prepared_def
        ordering_table_eq upt_rec numeral_3_eq_3)

end
